theory Spec2Isabelle
  imports Main "HOL-Library.Word"
begin

section \<open>Data model of mod\_sslhaf.c\<close>

text \<open>
  A shallow embedding of the newer revision of the module (src/mod\_sslhaf.c).
  Bytes are 8-bit words. Sizes (\<open>apr_size_t\<close>) that are only ever decremented under a
  guard are natural numbers; the one unsigned subtraction that can wrap (the SSLv2 record
  length) has its wrap-around modulo \<open>2 ^ 64\<close> written out. The signed counters of the
  extension loop (\<open>int elen\<close>, \<open>int ec_len\<close>) are integers: they do go negative.

  C has no bounds checks. Every read through a pointer into the record buffer is modelled
  by \<open>rd\<close>, which yields the fault \<open>OutOfBoundsRead\<close> when the index lies outside
  the allocated block; a fault is undefined behaviour of the C program, distinct from
  every return code of the functions.
\<close>

type_synonym byte = "8 word"

datatype state_t = STATE_START | STATE_BUFFER | STATE_READING | STATE_GOAWAY

datatype fault = OutOfBoundsRead | OutOfBoundsWrite | NullDereference

text \<open>
  \<open>struct sslhaf_cfg_t\<close> (lines 150-212). Pointers to strings are \<open>string option\<close>
  (\<open>None\<close> is \<open>NULL\<close>); \<open>buf\<close> is the malloc'ed block (its length is the allocated
  size); \<open>suites\<close>, a pointer into \<open>buf\<close>, is the offset it points at.
\<close>

record sslhaf_cfg_t =
  state :: state_t
  buf_protocol :: nat
  buf :: "byte list option"
  buf_len :: nat
  buf_to_go :: nat
  hello_version :: nat
  protocol_high :: nat
  protocol_low :: nat
  slen :: nat
  suites :: "nat option"
  thandshake :: "string option"
  tprotocol :: "string option"
  tsuites :: "string option"
  request_counter :: nat
  ipaddress_hash :: "string option"
  compression_len :: int
  compression_methods :: "string option"
  extensions_len :: int
  extensions :: "string option"
  client_hello :: "string option"
  ec_point :: "string option"
  curves :: "string option"
  curve_len :: int

definition BUF_LIMIT :: nat where
  "BUF_LIMIT = 16384"

definition PROTOCOL_CHANGE_CIPHER_SPEC :: nat where
  "PROTOCOL_CHANGE_CIPHER_SPEC = 20"

definition PROTOCOL_HANDSHAKE :: nat where
  "PROTOCOL_HANDSHAKE = 22"

definition PROTOCOL_APPLICATION :: nat where
  "PROTOCOL_APPLICATION = 23"

text \<open>
  \<open>sslhaf_pre_conn\<close> (lines 1008-1024): the configuration of a fresh connection is
  \<open>apr_pcalloc\<close>'ed, so every field is zero or \<open>NULL\<close>; state 0 is \<open>STATE_START\<close>.
\<close>

definition sslhaf_pre_conn :: sslhaf_cfg_t where
  "sslhaf_pre_conn =
     \<lparr> state = STATE_START, buf_protocol = 0, buf = None, buf_len = 0, buf_to_go = 0,
       hello_version = 0, protocol_high = 0, protocol_low = 0, slen = 0, suites = None,
       thandshake = None, tprotocol = None, tsuites = None, request_counter = 0,
       ipaddress_hash = None, compression_len = 0, compression_methods = None,
       extensions_len = 0, extensions = None, client_hello = None, ec_point = None,
       curves = None, curve_len = 0 \<rparr>"

section \<open>Faults and reads\<close>

definition bindF :: "fault + 'a \<Rightarrow> ('a \<Rightarrow> fault + 'b) \<Rightarrow> fault + 'b" where
  "bindF r k = (case r of Inl e \<Rightarrow> Inl e | Inr x \<Rightarrow> k x)"

lemma bindF_cong [fundef_cong]:
  "r = r' \<Longrightarrow> (\<And>x. r' = Inr x \<Longrightarrow> k x = k' x) \<Longrightarrow> bindF r k = bindF r' k'"
  by (cases r') (simp_all add: bindF_def)

lemma bindF_Inr [simp]: "bindF (Inr x) k = k x"
  by (simp add: bindF_def)

lemma bindF_Inl [simp]: "bindF (Inl e) k = Inl e"
  by (simp add: bindF_def)

text \<open>\<open>*(b + i)\<close>, as an unsigned value.\<close>

definition rd :: "byte list \<Rightarrow> nat \<Rightarrow> fault + nat" where
  "rd b i = (if i < length b then Inr (unat (b ! i)) else Inl OutOfBoundsRead)"

text \<open>\<open>(*p * 256) + *(p + 1)\<close>\<close>

definition rd16 :: "byte list \<Rightarrow> nat \<Rightarrow> fault + nat" where
  "rd16 b p = bindF (rd b p) (\<lambda>hi. bindF (rd b (p + 1)) (\<lambda>lo. Inr (hi * 256 + lo)))"

text \<open>
  The record buffer \<open>cfg->buf\<close> is a pointer that may be \<open>NULL\<close>; the fault is at the
  first byte read through it, not before.
\<close>

fun deref :: "byte list option \<Rightarrow> fault + byte list" where
  "deref None = Inl NullDereference"
| "deref (Some b) = Inr b"

section \<open>Text conversion\<close>

definition c2x_table :: string where
  "c2x_table = ''0123456789abcdef''"

text \<open>\<open>c2x\<close> (lines 266-274): the two hexadecimal digits of \<open>what & 0xff\<close>.\<close>

definition c2x :: "nat \<Rightarrow> string" where
  "c2x what = (let w = what mod 256 in [c2x_table ! (w div 16), c2x_table ! (w mod 16)])"

text \<open>The conversions \<open>%d\<close> and \<open>%i\<close> of \<open>printf\<close>, for a value that is not negative.\<close>

fun fmt_d :: "nat \<Rightarrow> string" where
  "fmt_d n =
     (if n < 10 then [''0123456789'' ! n]
      else fmt_d (n div 10) @ [''0123456789'' ! (n mod 10)])"

declare fmt_d.simps [simp del]

text \<open>
  \<open>while (cslen--) { c2x(*p, q); p++; q += 2; }\<close>: the hexadecimal copy of \<open>n\<close> bytes
  from offset \<open>p\<close>, appended to \<open>q\<close> (lines 329-333 and 472-476).
\<close>

fun hex_loop :: "byte list \<Rightarrow> nat \<Rightarrow> nat \<Rightarrow> string \<Rightarrow> fault + string" where
  "hex_loop b p n q =
     (if n = 0 then Inr q
      else bindF (rd b p) (\<lambda>x. hex_loop b (p + 1) (n - 1) (q @ c2x x)))"

declare hex_loop.simps [simp del]

section \<open>decode\_packet\_v2 (lines 292-411)\<close>

text \<open>
  The suite loop of lines 382-404: a comma before every token but the first
  (\<open>q\<close> has moved from \<open>cfg->tsuites\<close> exactly when the text so far is not empty).
\<close>

fun v2_suites_loop :: "byte list \<Rightarrow> nat \<Rightarrow> nat \<Rightarrow> string \<Rightarrow> fault + string" where
  "v2_suites_loop b p cslen q =
     (if cslen = 0 then Inr q
      else
        bindF (rd b p) (\<lambda>b0. bindF (rd b (p + 1)) (\<lambda>b1. bindF (rd b (p + 2)) (\<lambda>b2.
          let q1 = (if q \<noteq> [] then q @ '','' else q);
              q2 = (if b0 \<noteq> 0 then q1 @ c2x b0 @ c2x b1
                    else if b1 \<noteq> 0 then q1 @ c2x b1 else q1)
          in v2_suites_loop b (p + 3) (cslen - 1) (q2 @ c2x b2)))))"

declare v2_suites_loop.simps [simp del]

text \<open>
  Lines 296-345. The copy in hexadecimal reads \<open>buf_len\<close> bytes of the record, none
  when \<open>buf_len\<close> is 0; the list of suites is read after the test \<open>len < 6\<close>. The pool
  allocator of the server aborts when memory runs out, so \<open>apr_pcalloc\<close> and \<open>apr_psprintf\<close>
  are taken to give their block.
\<close>

definition decode_packet_v2 :: "sslhaf_cfg_t \<Rightarrow> fault + (int \<times> sslhaf_cfg_t)" where
  "decode_packet_v2 cfg =
     (let q = c2x 128 @ c2x (buf_len cfg + 3) @ c2x 1 @
              (if protocol_high cfg = 2 \<and> protocol_low cfg = 0
               then c2x (protocol_low cfg) @ c2x (protocol_high cfg)
               else c2x (protocol_high cfg) @ c2x (protocol_low cfg))
      in
      bindF (if buf_len cfg = 0 then Inr q
             else bindF (deref (buf cfg)) (\<lambda>mybuf. hex_loop mybuf 0 (buf_len cfg) q)) (\<lambda>hello.
        let cfg1 = cfg\<lparr>client_hello := Some hello\<rparr>;
            len = buf_len cfg
        in
        if len < 6 then Inr (- 1, cfg1)
        else
          bindF (deref (buf cfg)) (\<lambda>b.
            bindF (rd16 b 0) (\<lambda>cslen.
              if len - 6 < cslen then Inr (- 2, cfg1)
              else
                let cslen3 = cslen div 3;
                    cfg2 = cfg1\<lparr>slen := cslen3, suites := Some 6,
                                thandshake := Some (fmt_d (hello_version cfg1)),
                                tprotocol := Some (fmt_d (protocol_high cfg1) @ ''.'' @
                                                   fmt_d (protocol_low cfg1))\<rparr>
                in
                bindF (v2_suites_loop b 6 cslen3 []) (\<lambda>ts.
                  Inr (1, cfg2\<lparr>tsuites := Some ts\<rparr>))))))"

section \<open>decode\_packet\_v3\_handshake (lines 416-702)\<close>

text \<open>The suite loop of lines 541-555: two bytes a suite, a zero high byte left out.\<close>

fun v3_suites_loop :: "byte list \<Rightarrow> nat \<Rightarrow> nat \<Rightarrow> string \<Rightarrow> fault + string" where
  "v3_suites_loop b p cslen q =
     (if cslen = 0 then Inr q
      else
        bindF (rd b p) (\<lambda>b0. bindF (rd b (p + 1)) (\<lambda>b1.
          let q1 = (if q \<noteq> [] then q @ '','' else q);
              q2 = (if b0 \<noteq> 0 then q1 @ c2x b0 else q1)
          in v3_suites_loop b (p + 2) (cslen - 1) (q2 @ c2x b1))))"

declare v3_suites_loop.simps [simp del]

text \<open>The compression loop of lines 577-585.\<close>

fun compression_loop :: "byte list \<Rightarrow> nat \<Rightarrow> nat \<Rightarrow> string \<Rightarrow> fault + string" where
  "compression_loop b p clen q =
     (if clen = 0 then Inr q
      else
        bindF (rd b p) (\<lambda>x.
          compression_loop b (p + 1) (clen - 1) ((if q \<noteq> [] then q @ '','' else q) @ c2x x)))"

declare compression_loop.simps [simp del]

text \<open>
  The supported-groups loop of lines 657-669: \<open>ec_len\<close> is a signed counter that drops
  by two per round, and two bytes are read each round whatever its parity. The result is
  the pointer after the loop and the text.
\<close>

function curves_loop :: "byte list \<Rightarrow> nat \<Rightarrow> int \<Rightarrow> string \<Rightarrow> fault + (nat \<times> string)" where
  "curves_loop b p ec_len e =
     (if ec_len > 0 then
        bindF (rd b p) (\<lambda>x. bindF (rd b (p + 1)) (\<lambda>y.
          curves_loop b (p + 2) (ec_len - 2) ((if e \<noteq> [] then e @ '','' else e) @ c2x x @ c2x y)))
      else Inr (p, e))"
  by pat_completeness auto
termination
  by (relation "measure (\<lambda>(b, p, ec_len, e). nat ec_len)") auto

declare curves_loop.simps [simp del]

text \<open>The EC-point-formats loop of lines 680-688.\<close>

function ec_point_loop :: "byte list \<Rightarrow> nat \<Rightarrow> int \<Rightarrow> string \<Rightarrow> fault + (nat \<times> string)" where
  "ec_point_loop b p curve_len_1 c =
     (if curve_len_1 > 0 then
        bindF (rd b p) (\<lambda>x.
          ec_point_loop b (p + 1) (curve_len_1 - 1) ((if c \<noteq> [] then c @ '','' else c) @ c2x x))
      else Inr (p, c))"
  by pat_completeness auto
termination
  by (relation "measure (\<lambda>(b, p, curve_len_1, c). nat curve_len_1)") auto

declare ec_point_loop.simps [simp del]

text \<open>
  The extension loop of lines 617-695. Nothing in it compares a length with what is
  left: the type and length bytes are read while \<open>elen > 0\<close>, the lists of the
  extensions 10 and 11 are read for as many bytes as they declare, and \<open>elen\<close> may end
  negative. The result is the text of \<open>cfg->extensions\<close> and the configuration.
\<close>

function extensions_loop ::
  "byte list \<Rightarrow> nat \<Rightarrow> int \<Rightarrow> string \<Rightarrow> sslhaf_cfg_t \<Rightarrow> fault + (string \<times> sslhaf_cfg_t)" where
  "extensions_loop b p elen q cfg =
     (if elen > 0 then
        let cfg1 = cfg\<lparr>extensions_len := extensions_len cfg + 1\<rparr>;
            q1 = (if q \<noteq> [] then q @ '','' else q)
        in
        bindF (rd b p) (\<lambda>b1. bindF (rd b (p + 1)) (\<lambda>b2.
          let q2 = q1 @ c2x b1 @ c2x b2;
              ext_type = b1 * 256 + b2
          in
          bindF (rd16 b (p + 2)) (\<lambda>ext1len.
            if ext_type = 10 then
              bindF (rd16 b (p + 4)) (\<lambda>ec_len.
                bindF (curves_loop b (p + 6) (int ec_len) []) (\<lambda>(p', e).
                  extensions_loop b p' (elen - 4 - int ext1len) q2 (cfg1\<lparr>curves := Some e\<rparr>)))
            else if ext_type = 11 then
              bindF (rd b (p + 4)) (\<lambda>curve_len_1.
                bindF (ec_point_loop b (p + 5) (int curve_len_1) []) (\<lambda>(p', c).
                  extensions_loop b p' (elen - 4 - int ext1len) q2
                    (cfg1\<lparr>curve_len := int curve_len_1, ec_point := Some c\<rparr>)))
            else
              extensions_loop b (p + 4 + ext1len) (elen - 4 - int ext1len) q2 cfg1)))
      else Inr (q, cfg))"
  by pat_completeness auto
termination
  by (relation "measure (\<lambda>(b, p, elen, q, cfg). nat elen)") auto

declare extensions_loop.simps [simp del]

text \<open>
  The function, in the order of the source but last part first. Lines 596-701: the
  extensions block, whose length is compared with what is left of the message.
\<close>

definition v3_extensions ::
  "byte list \<Rightarrow> nat \<Rightarrow> nat \<Rightarrow> sslhaf_cfg_t \<Rightarrow> fault + (int \<times> sslhaf_cfg_t)" where
  "v3_extensions b p mylen cfg =
     (if mylen < 2 then Inr (- 10, cfg)
      else
        bindF (rd16 b p) (\<lambda>elen.
          let mylen = mylen - 2;
              p = p + 2
          in
          if mylen < elen then Inr (- 11, cfg)
          else
            bindF (extensions_loop b p (int elen) [] (cfg\<lparr>extensions_len := 0\<rparr>))
              (\<lambda>(q, cfg'). Inr (1, cfg'\<lparr>extensions := Some q\<rparr>))))"

text \<open>Lines 560-594: the compression methods; a message that ends after them is complete.\<close>

definition v3_compression ::
  "byte list \<Rightarrow> nat \<Rightarrow> nat \<Rightarrow> sslhaf_cfg_t \<Rightarrow> fault + (int \<times> sslhaf_cfg_t)" where
  "v3_compression b p mylen cfg =
     (if mylen < 1 then Inr (- 8, cfg)
      else
        bindF (rd b p) (\<lambda>clen.
          let p = p + 1;
              mylen = mylen - 1
          in
          if mylen < clen then Inr (- 9, cfg)
          else
            bindF (compression_loop b p clen []) (\<lambda>cm.
              let cfg1 = cfg\<lparr>compression_len := int clen, compression_methods := Some cm\<rparr>;
                  p = p + clen;
                  mylen = mylen - clen
              in
              if mylen = 0 then Inr (1, cfg1)
              else v3_extensions b p mylen cfg1)))"

text \<open>
  Lines 512-558: the cipher suites. The handshake and protocol texts are made here, from
  the version numbers as they stand in the configuration.
\<close>

definition v3_cipher_suites ::
  "byte list \<Rightarrow> nat \<Rightarrow> nat \<Rightarrow> sslhaf_cfg_t \<Rightarrow> fault + (int \<times> sslhaf_cfg_t)" where
  "v3_cipher_suites b p mylen cfg =
     (if mylen < 2 then Inr (- 6, cfg)
      else
        bindF (rd16 b p) (\<lambda>cs_bytes.
          let cslen = cs_bytes div 2;
              p = p + 2;
              mylen = mylen - 2
          in
          if mylen < cslen * 2 then Inr (- 7, cfg)
          else
            let cfg1 = cfg\<lparr>slen := cslen, suites := Some p,
                         thandshake := Some (fmt_d (hello_version cfg)),
                         tprotocol := Some (fmt_d (protocol_high cfg) @ ''.'' @
                                            fmt_d (protocol_low cfg))\<rparr>
            in
            bindF (v3_suites_loop b p cslen []) (\<lambda>ts.
              let cfg2 = cfg1\<lparr>tsuites := Some ts\<rparr> in
              v3_compression b (p + 2 * cslen) (mylen - slen cfg2 * 2) cfg2)))"

text \<open>
  Lines 481-510: the version of the ClientHello, which replaces the one of the record
  layer, the 32 bytes of random, and the session id.
\<close>

definition v3_client_hello ::
  "byte list \<Rightarrow> nat \<Rightarrow> sslhaf_cfg_t \<Rightarrow> fault + (int \<times> sslhaf_cfg_t)" where
  "v3_client_hello b ml cfg =
     (if ml < 34 then Inr (- 3, cfg)
      else
        bindF (rd b 4) (\<lambda>high. bindF (rd b 5) (\<lambda>low.
          let cfg1 = cfg\<lparr>protocol_high := high, protocol_low := low\<rparr>;
              mylen = ml - 34
          in
          if mylen < 1 then Inr (- 4, cfg1)
          else
            bindF (rd b 38) (\<lambda>idlen.
              let mylen = mylen - 1 in
              if mylen < idlen then Inr (- 5, cfg1)
              else v3_cipher_suites b (39 + idlen) (mylen - idlen) cfg1))))"

text \<open>
  Lines 417-477: the message type and length, and the hexadecimal copy of the record
  under a rebuilt record header.
\<close>

definition decode_packet_v3_handshake :: "sslhaf_cfg_t \<Rightarrow> fault + (int \<times> sslhaf_cfg_t)" where
  "decode_packet_v3_handshake cfg =
     (let len = buf_len cfg in
      if len < 4 then Inr (- 1, cfg)
      else
        bindF (deref (buf cfg)) (\<lambda>b.
          bindF (rd b 0) (\<lambda>msg_type.
            if msg_type \<noteq> 1 then Inr (1, cfg)
            else
              bindF (rd b 1) (\<lambda>m1. bindF (rd b 2) (\<lambda>m2. bindF (rd b 3) (\<lambda>m3.
                let ml = m1 * 65536 + m2 * 256 + m3 in
                if ml > len - 4 then Inr (- 2, cfg)
                else
                  let q = c2x 22 @ c2x (protocol_high cfg) @ c2x (protocol_low cfg) @
                          c2x ((ml + 4) div 256) @ c2x ((ml + 4) mod 256)
                  in
                  bindF (hex_loop b 0 len q) (\<lambda>hello.
                    v3_client_hello b ml (cfg\<lparr>client_hello := Some hello\<rparr>))))))))"

text \<open>\<open>decode_packet_v3\<close> (lines 707-714).\<close>

definition decode_packet_v3 :: "sslhaf_cfg_t \<Rightarrow> fault + (int \<times> sslhaf_cfg_t)" where
  "decode_packet_v3 cfg =
     (if buf_protocol cfg = PROTOCOL_HANDSHAKE then decode_packet_v3_handshake cfg
      else Inr (1, cfg))"

section \<open>decode\_bucket (lines 720-938)\<close>

text \<open>
  \<open>malloc\<close> may fail: \<open>malloc_ok len\<close> tells whether the request for \<open>len\<close> bytes
  is granted. The contents of a fresh block are indeterminate in C; the model fills it
  with zeros, and no byte of it is read before \<open>memcpy\<close> has written it.
\<close>

definition malloc_block :: "nat \<Rightarrow> byte list" where
  "malloc_block len = replicate len 0"

text \<open>\<open>memcpy(dst + off, src, n)\<close>\<close>

definition memcpy :: "byte list option \<Rightarrow> nat \<Rightarrow> byte list \<Rightarrow> nat \<Rightarrow> fault + byte list" where
  "memcpy dst off src n =
     (case dst of
        None \<Rightarrow> Inl NullDereference
      | Some d \<Rightarrow>
          if length src < n then Inl OutOfBoundsRead
          else if length d < off + n then Inl OutOfBoundsWrite
          else Inr (take off d @ take n src @ drop (off + n) d))"

text \<open>The conversion of an \<open>int\<close> to the 64-bit unsigned \<open>apr_size_t\<close>.\<close>

definition size_t_of_int :: "int \<Rightarrow> nat" where
  "size_t_of_int i = nat (i mod 2 ^ 64)"

text \<open>
  The first half of the loop body, lines 740-887: the header of a record. It either
  returns from \<open>decode_bucket\<close> with a code, or leaves the configuration in
  \<open>STATE_BUFFER\<close> with the input pointer after the header.
\<close>

datatype start_result = Returned int sslhaf_cfg_t | Buffering sslhaf_cfg_t "byte list"

definition start_packet ::
  "(nat \<Rightarrow> bool) \<Rightarrow> sslhaf_cfg_t \<Rightarrow> byte list \<Rightarrow> fault + start_result" where
  "start_packet malloc_ok cfg inputbuf =
     bindF (rd inputbuf 0) (\<lambda>b0.
       if state cfg = STATE_START \<and> b0 \<noteq> PROTOCOL_HANDSHAKE \<and> b0 \<noteq> 128
       then Inr (Returned (- 1) cfg)
       else if b0 = PROTOCOL_HANDSHAKE \<or> b0 = PROTOCOL_APPLICATION \<or>
               b0 = PROTOCOL_CHANGE_CIPHER_SPEC then
         let cfg1 = cfg\<lparr>buf_protocol := b0\<rparr>;
             inputbuf1 = drop 1 inputbuf
         in
         if length inputbuf1 < 4 then Inr (Returned (- 1) cfg1)
         else
           bindF (rd inputbuf1 0) (\<lambda>v0. bindF (rd inputbuf1 1) (\<lambda>v1.
             let cfg2 = cfg1\<lparr>hello_version := 3\<rparr>;
                 cfg3 = (if protocol_high cfg2 = 0
                         then cfg2\<lparr>protocol_high := v0, protocol_low := v1\<rparr> else cfg2);
                 inputbuf2 = drop 2 inputbuf1
             in
             bindF (rd16 inputbuf2 0) (\<lambda>len.
               if len \<le> 0 \<or> len > BUF_LIMIT then Inr (Returned (- 1) cfg3)
               else
                 let inputbuf3 = drop 2 inputbuf2 in
                 if \<not> malloc_ok len then Inr (Returned (- 1) (cfg3\<lparr>buf := None\<rparr>))
                 else
                   Inr (Buffering
                         (cfg3\<lparr>buf := Some (malloc_block len), state := STATE_BUFFER,
                               buf_len := 0, buf_to_go := len\<rparr>)
                         inputbuf3))))
       else if b0 = 128 then
         let inputbuf1 = drop 1 inputbuf in
         if length inputbuf1 < 4 then Inr (Returned (- 1) cfg)
         else
           bindF (rd inputbuf1 1) (\<lambda>msg_type.
             if msg_type \<noteq> 1 then Inr (Returned (- 1) cfg)
             else
               let cfg1 = cfg\<lparr>hello_version := 2\<rparr> in
               bindF (rd inputbuf1 2) (\<lambda>v2. bindF (rd inputbuf1 3) (\<lambda>v3.
                 let cfg2 = (if v2 = 0 \<and> v3 = 2
                             then cfg1\<lparr>protocol_high := v3, protocol_low := v2\<rparr>
                             else cfg1\<lparr>protocol_high := v2, protocol_low := v3\<rparr>)
                 in
                 bindF (rd inputbuf1 0) (\<lambda>l0.
                   let len = size_t_of_int (int l0 - 3) in
                   if len \<le> 0 \<or> len > BUF_LIMIT then Inr (Returned (- 1) cfg2)
                   else
                     let inputbuf2 = drop 4 inputbuf1 in
                     if \<not> malloc_ok len then Inr (Returned (- 1) (cfg2\<lparr>buf := None\<rparr>))
                     else
                       Inr (Buffering
                             (cfg2\<lparr>buf := Some (malloc_block len), state := STATE_BUFFER,
                                   buf_len := 0, buf_to_go := len\<rparr>)
                             inputbuf2)))))
       else Inr (Returned (- 1) cfg))"

text \<open>
  The loop \<open>while (inputlen > 0)\<close>. After a partial copy \<open>inputlen\<close> is 0, which is
  the recursive call on the empty input. The last branch is the loop going round with
  nothing consumed; it is taken in no state the type has, and that is what the
  termination proof shows.
\<close>

function decode_bucket ::
  "(nat \<Rightarrow> bool) \<Rightarrow> sslhaf_cfg_t \<Rightarrow> byte list \<Rightarrow> fault + (int \<times> sslhaf_cfg_t)" where
  "decode_bucket malloc_ok cfg inputbuf =
     (if length inputbuf > 0 then
        if state cfg = STATE_GOAWAY then Inr (1, cfg)
        else
          bindF (if state cfg = STATE_START \<or> state cfg = STATE_READING
                 then start_packet malloc_ok cfg inputbuf
                 else Inr (Buffering cfg inputbuf))
            (\<lambda>r. case r of
                Returned rc cfg' \<Rightarrow> Inr (rc, cfg')
              | Buffering cfg1 inputbuf1 \<Rightarrow>
                  if state cfg1 = STATE_BUFFER then
                    if buf_to_go cfg1 \<le> length inputbuf1 then
                      bindF (memcpy (buf cfg1) (buf_len cfg1) inputbuf1 (buf_to_go cfg1)) (\<lambda>d.
                        let cfg2 = cfg1\<lparr>buf := Some d,
                                     buf_len := buf_len cfg1 + buf_to_go cfg1,
                                     buf_to_go := 0\<rparr>
                        in
                        bindF (if hello_version cfg2 = 3 then decode_packet_v3 cfg2
                               else decode_packet_v2 cfg2)
                          (\<lambda>(rc, cfg3).
                            let cfg4 = cfg3\<lparr>buf := None, state := STATE_GOAWAY\<rparr> in
                            if rc < 0 then Inr (- 1, cfg4) else Inr (1, cfg4)))
                    else
                      bindF (memcpy (buf cfg1) (buf_len cfg1) inputbuf1 (length inputbuf1)) (\<lambda>d.
                        decode_bucket malloc_ok
                          (cfg1\<lparr>buf := Some d,
                                buf_len := buf_len cfg1 + length inputbuf1,
                                buf_to_go := buf_to_go cfg1 - length inputbuf1\<rparr>)
                          [])
                  else decode_bucket malloc_ok cfg1 inputbuf1)
      else Inr (1, cfg))"
  by pat_completeness auto

lemma start_packet_state:
  "start_packet malloc_ok cfg inputbuf = Inr (Buffering cfg1 inputbuf1) \<Longrightarrow>
   state cfg1 = STATE_BUFFER"
  by (auto simp: start_packet_def bindF_def Let_def split: sum.splits if_splits)

termination decode_bucket
proof (relation "measure (\<lambda>(malloc_ok, cfg, inputbuf). length inputbuf)")
  show "wf (measure (\<lambda>(malloc_ok, cfg, inputbuf). length inputbuf))"
    by simp
next
  fix malloc_ok :: "nat \<Rightarrow> bool" and cfg cfg1 :: sslhaf_cfg_t
    and inputbuf inputbuf1 d :: "byte list"
  assume "0 < length inputbuf"
  then show "((malloc_ok,
               cfg1\<lparr>buf := Some d, buf_len := buf_len cfg1 + length inputbuf1,
                     buf_to_go := buf_to_go cfg1 - length inputbuf1\<rparr>, []),
              malloc_ok, cfg, inputbuf)
             \<in> measure (\<lambda>(malloc_ok, cfg, inputbuf). length inputbuf)"
    by simp
next
  fix malloc_ok :: "nat \<Rightarrow> bool" and cfg cfg1 :: sslhaf_cfg_t
    and inputbuf inputbuf1 :: "byte list" and r :: start_result
  assume go: "state cfg \<noteq> STATE_GOAWAY"
    and r: "(if state cfg = STATE_START \<or> state cfg = STATE_READING
             then start_packet malloc_ok cfg inputbuf
             else Inr (Buffering cfg inputbuf)) = Inr r"
    and b: "r = Buffering cfg1 inputbuf1"
    and nb: "state cfg1 \<noteq> STATE_BUFFER"
  have "state cfg1 = STATE_BUFFER"
  proof (cases "state cfg = STATE_START \<or> state cfg = STATE_READING")
    case True
    with r b show ?thesis
      by (simp add: start_packet_state)
  next
    case False
    with r b have "cfg1 = cfg"
      by simp
    with False go show ?thesis
      by (cases "state cfg") simp_all
  qed
  with nb show "((malloc_ok, cfg1, inputbuf1), malloc_ok, cfg, inputbuf)
                \<in> measure (\<lambda>(malloc_ok, cfg, inputbuf). length inputbuf)"
    by simp
qed

declare decode_bucket.simps [simp del]

section \<open>sslhaf\_in\_filter (lines 944-1003)\<close>

text \<open>
  What the filter gets from the host: \<open>ap_get_brigade\<close> fails, or yields a brigade of
  buckets; a bucket is metadata, or data that \<open>apr_bucket_read\<close> reads, or data whose
  read fails. The configuration is the one \<open>sslhaf_pre_conn\<close> attached (the case of no
  configuration, where the filter does nothing, is left out).
\<close>

datatype bucket = Metadata | Data "byte list" | ReadError

datatype brigade = BrigadeError | Brigade "bucket list"

fun buckets_loop :: "(nat \<Rightarrow> bool) \<Rightarrow> sslhaf_cfg_t \<Rightarrow> bucket list \<Rightarrow> fault + sslhaf_cfg_t" where
  "buckets_loop malloc_ok cfg [] = Inr cfg"
| "buckets_loop malloc_ok cfg (Metadata # bb) = buckets_loop malloc_ok cfg bb"
| "buckets_loop malloc_ok cfg (ReadError # bb) = Inr cfg"
| "buckets_loop malloc_ok cfg (Data inputbuf # bb) =
     bindF (decode_bucket malloc_ok cfg inputbuf) (\<lambda>(rc, cfg').
       if rc \<le> 0 then Inr (cfg'\<lparr>state := STATE_GOAWAY\<rparr>)
       else if state cfg' = STATE_GOAWAY then Inr cfg'
       else buckets_loop malloc_ok cfg' bb)"

definition sslhaf_in_filter :: "(nat \<Rightarrow> bool) \<Rightarrow> sslhaf_cfg_t \<Rightarrow> brigade \<Rightarrow> fault + sslhaf_cfg_t" where
  "sslhaf_in_filter malloc_ok cfg bb =
     (if state cfg = STATE_GOAWAY then Inr cfg
      else case bb of
             BrigadeError \<Rightarrow> Inr (cfg\<lparr>state := STATE_GOAWAY\<rparr>)
           | Brigade buckets \<Rightarrow> buckets_loop malloc_ok cfg buckets)"

text \<open>The filter called once per brigade, in the order the brigades arrive.\<close>

fun feed :: "(nat \<Rightarrow> bool) \<Rightarrow> sslhaf_cfg_t \<Rightarrow> brigade list \<Rightarrow> fault + sslhaf_cfg_t" where
  "feed malloc_ok cfg [] = Inr cfg"
| "feed malloc_ok cfg (bb # bbs) =
     bindF (sslhaf_in_filter malloc_ok cfg bb) (\<lambda>cfg'. feed malloc_ok cfg' bbs)"

section \<open>sslhaf\_post\_request (lines 1026-1196)\<close>

definition grease_table :: "string list" where
  "grease_table = [''0a0a'', ''1a1a'', ''2a2a'', ''3a3a'', ''4a4a'', ''5a5a'', ''6a6a'',
     ''7a7a'', ''8a8a'', ''9a9a'', ''aaaa'', ''baba'', ''caca'', ''dada'', ''eaea'', ''fafa'']"

text \<open>
  The loop of \<open>str_to_dec\<close> (lines 1033-1041): \<open>cur\<close> keeps its last value at a
  character that is no hexadecimal digit, and the exponent \<open>length\<close> is the number of
  characters still to come. \<open>pow\<close> computes in \<open>double\<close>, which is exact for every
  result that fits the 10-byte block checked below.
\<close>

fun str_to_dec_loop :: "string \<Rightarrow> nat \<Rightarrow> nat \<Rightarrow> nat" where
  "str_to_dec_loop [] cur res = res"
| "str_to_dec_loop (c # cs) cur res =
     (let cur' = (if 48 \<le> (of_char c :: nat) \<and> (of_char c :: nat) \<le> 57 then of_char c - 48
                  else if 97 \<le> (of_char c :: nat) \<and> (of_char c :: nat) \<le> 102 then of_char c - 87
                  else cur)
      in str_to_dec_loop cs cur' (res + cur' * 16 ^ length cs))"

text \<open>\<open>str_to_dec\<close> (lines 1026-1044): \<open>sprintf(str, "%d-", res)\<close> into \<open>malloc(10)\<close>.\<close>

definition str_to_dec :: "string \<Rightarrow> fault + string" where
  "str_to_dec string =
     (let str = fmt_d (str_to_dec_loop string 0 0) @ ''-''
      in if length str + 1 > 10 then Inl OutOfBoundsWrite else Inr str)"

text \<open>\<open>strcpy\<close> into a \<open>char[100]\<close>, and \<open>strcat\<close> onto a \<open>calloc(100, 1)\<close> block.\<close>

definition strcpy100 :: "string option \<Rightarrow> fault + string" where
  "strcpy100 src =
     (case src of
        None \<Rightarrow> Inl NullDereference
      | Some s \<Rightarrow> if length s + 1 > 100 then Inl OutOfBoundsWrite else Inr s)"

definition strcat100 :: "string \<Rightarrow> string \<Rightarrow> fault + string" where
  "strcat100 dst src =
     (if length dst + length src + 1 > 100 then Inl OutOfBoundsWrite else Inr (dst @ src))"

text \<open>
  The tokens that \<open>strtok(s, ",")\<close> and then \<open>strtok(NULL, ",")\<close> return, in order:
  the maximal runs of characters other than the comma (\<open>strtok\<close> never returns an empty
  token). \<open>cur\<close> is the run being read.
\<close>

fun strtok_loop :: "string \<Rightarrow> string \<Rightarrow> string list" where
  "strtok_loop cur [] = (if cur = [] then [] else [cur])"
| "strtok_loop cur (c # cs) =
     (if c = CHR '','' then (if cur = [] then strtok_loop [] cs else cur # strtok_loop [] cs)
      else strtok_loop (cur @ [c]) cs)"

definition strtok :: "string \<Rightarrow> string list" where
  "strtok s = strtok_loop [] s"

text \<open>
  The loop \<open>while (token != NULL)\<close>, which the function has four times (lines 1073-1085,
  1100-1112, 1125-1137, 1151-1163): a token of \<open>grease_table\<close> is passed over, any other
  is converted and appended to the output block.
\<close>

fun tokens_loop :: "string list \<Rightarrow> string \<Rightarrow> fault + string" where
  "tokens_loop [] out = Inr out"
| "tokens_loop (token # rest) out =
     (if token \<in> set grease_table then tokens_loop rest out
      else bindF (str_to_dec token) (\<lambda>d. bindF (strcat100 out d) (\<lambda>out'. tokens_loop rest out')))"

text \<open>\<open>s[strlen(s) - 1] = '\0'\<close>: on the empty string the index wraps to the byte before the block.\<close>

definition chop_last :: "string \<Rightarrow> fault + string" where
  "chop_last s = (if s = [] then Inl OutOfBoundsWrite else Inr (butlast s))"

text \<open>
  The normalizer as it stands for the suites (lines 1068-1086), the extensions
  (lines 1095-1113) and the curves (lines 1146-1164).
\<close>

definition normalize_list :: "string option \<Rightarrow> fault + string" where
  "normalize_list src =
     bindF (strcpy100 src) (\<lambda>cpy. bindF (tokens_loop (strtok cpy) []) chop_last)"

text \<open>The variant for the EC point formats (lines 1119-1142).\<close>

definition normalize_ec_point :: "string option \<Rightarrow> fault + string" where
  "normalize_ec_point src =
     bindF (strcpy100 src) (\<lambda>ec_cpy.
       bindF (if length ec_cpy > 2 then tokens_loop (strtok ec_cpy) []
              else bindF (str_to_dec ec_cpy) (strcat100 []))
         chop_last)"

text \<open>
  \<open>sslhaf_post_request\<close>: the table \<open>r->subprocess_env\<close> is a map from a key to the
  pointer stored under it.
\<close>

type_synonym apr_table = "string \<Rightarrow> string option option"

definition sslhaf_post_request ::
  "sslhaf_cfg_t \<Rightarrow> apr_table \<Rightarrow> fault + (sslhaf_cfg_t \<times> apr_table)" where
  "sslhaf_post_request cfg env =
     (if tsuites cfg \<noteq> None then
        let cfg1 = cfg\<lparr>buf := None\<rparr>;
            env1 = env(''SSLHAF_HANDSHAKE'' \<mapsto> thandshake cfg1,
                       ''SSLHAF_PROTOCOL'' \<mapsto> tprotocol cfg1)
        in
        bindF (normalize_list (tsuites cfg1)) (\<lambda>suites.
          let env2 = env1(''SSLHAF_SUITES'' \<mapsto> Some suites,
                          ''SSLHAF_COMPRESSION'' \<mapsto> compression_methods cfg1,
                          ''SSLHAF_EXTENSIONS_LEN'' \<mapsto> Some (fmt_d (nat (extensions_len cfg1))))
          in
          bindF (normalize_list (extensions cfg1)) (\<lambda>ext.
            let env3 = env2(''SSLHAF_EXTENSIONS'' \<mapsto> Some ext) in
            bindF (normalize_ec_point (ec_point cfg1)) (\<lambda>ec_pt.
              let env4 = env3(''EC_POINT'' \<mapsto> Some ec_pt) in
              bindF (normalize_list (curves cfg1)) (\<lambda>curves'.
                let env5 = env4(''CURVES'' \<mapsto> Some curves');
                    cfg2 = cfg1\<lparr>request_counter := request_counter cfg1 + 1\<rparr>;
                    env6 = (if request_counter cfg2 = 1 then env5(''SSLHAF_LOG'' \<mapsto> Some ''1'')
                            else env5);
                    env7 = (if client_hello cfg2 \<noteq> None
                            then env6(''SSLHAF_RAW'' \<mapsto> client_hello cfg2)
                            else env6(''SSLHAF_RAW'' \<mapsto> Some ''-''))
                in Inr (cfg2, env7)))))
      else Inr (cfg, env))"

section \<open>Auxiliary definitions for the statements\<close>

text \<open>
  The configuration after the header of a handshake record (first byte 22) with the
  version bytes \<open>v0\<close>, \<open>v1\<close> has been read: lines 758 and 772-777.
\<close>

definition v3_header_cfg :: "sslhaf_cfg_t \<Rightarrow> byte \<Rightarrow> byte \<Rightarrow> sslhaf_cfg_t" where
  "v3_header_cfg cfg v0 v1 = 
     (if protocol_high cfg = 0
      then cfg\<lparr>buf_protocol := 22, hello_version := 3, protocol_high := unat v0, protocol_low := unat v1\<rparr>
      else cfg\<lparr>buf_protocol := 22, hello_version := 3\<rparr>)"

text \<open>
  The order of the states: a connection stays where it is, or goes from \<open>STATE_START\<close> to
  \<open>STATE_BUFFER\<close> or to \<open>STATE_GOAWAY\<close>, or from \<open>STATE_BUFFER\<close> to \<open>STATE_GOAWAY\<close>.
\<close>

definition legal_transition :: "state_t \<Rightarrow> state_t \<Rightarrow> bool" where
  "legal_transition s s' =
     (s' = s \<or> (s = STATE_START \<and> s' = STATE_BUFFER) \<or> (s = STATE_START \<and> s' = STATE_GOAWAY) \<or>
      (s = STATE_BUFFER \<and> s' = STATE_GOAWAY))"

text \<open>
  The SSLv2 suite tokens as the specification words them (section 4.4): a triplet
  \<open>(b0, b1, b2)\<close> is six hexadecimal characters if \<open>b0\<close> is not zero, else four if
  \<open>b1\<close> is not zero, else two; the tokens of a body are those of the whole triplets among
  the bytes its first two bytes declare, after the six bytes of lengths; they are joined
  with commas.
\<close>

definition v2_token :: "byte \<Rightarrow> byte \<Rightarrow> byte \<Rightarrow> string" where
  "v2_token b0 b1 b2 =
     (if b0 \<noteq> 0 then c2x (unat b0) @ c2x (unat b1) @ c2x (unat b2)
      else if b1 \<noteq> 0 then c2x (unat b1) @ c2x (unat b2)
      else c2x (unat b2))"

fun triplets :: "byte list \<Rightarrow> (byte \<times> byte \<times> byte) list" where
  "triplets (b0 # b1 # b2 # rest) = (b0, b1, b2) # triplets rest"
| "triplets rest = []"

fun comma_join :: "string list \<Rightarrow> string" where
  "comma_join [] = []"
| "comma_join [t] = t"
| "comma_join (t # ts) = t @ '','' @ comma_join ts"

definition spec_v2_tokens :: "byte list \<Rightarrow> string list" where
  "spec_v2_tokens body =
     map (\<lambda>(b0, b1, b2). v2_token b0 b1 b2)
       (triplets (take (unat (body ! 0) * 256 + unat (body ! 1)) (drop 6 body)))"

text \<open>What the loops do with the comma: a token is appended to \<open>q\<close>, after a comma if \<open>q\<close> is not empty.\<close>

definition join_onto :: "string \<Rightarrow> string list \<Rightarrow> string" where
  "join_onto q ts = foldl (\<lambda>q t. (if q \<noteq> [] then q @ '','' else q) @ t) q ts"

text \<open>
  An SSLv2 hello like the one in the module's header comment (handshake 2, protocol 3.1,
  suites 04, 010080, 05, 0a), and the configuration once its 34 bytes are buffered.
\<close>

definition google_record :: "byte list" where
  "google_record =
     [0x80, 0x25, 0x01, 0x03, 0x01, 0x00, 0x0c, 0x00, 0x00, 0x00, 0x10,
      0x00, 0x00, 0x04, 0x01, 0x00, 0x80, 0x00, 0x00, 0x05, 0x00, 0x00, 0x0a,
      0x3a, 0x1f, 0x5c, 0x09, 0x77, 0xe2, 0x41, 0x90, 0x0b, 0xd4, 0x68, 0x23, 0xfe, 0x15, 0xa6, 0xc8]"

definition google_buffered :: sslhaf_cfg_t where
  "google_buffered =
     sslhaf_pre_conn\<lparr>state := STATE_BUFFER, buf := Some (drop 5 google_record), buf_len := 34,
       buf_to_go := 0, hello_version := 2, protocol_high := 3, protocol_low := 1\<rparr>"

text \<open>The configuration that the header step leaves, whichever way it ends.\<close>

definition result_cfg :: "start_result \<Rightarrow> sslhaf_cfg_t" where
  "result_cfg r = (case r of Returned rc cfg \<Rightarrow> cfg | Buffering cfg inputbuf \<Rightarrow> cfg)"

text \<open>
  A TLS ClientHello record: record version 3.1, client version 3.3, no session id, the
  suite 002f, no compression, and the extensions 10 (one group, 0017) and 11 (one point
  format, 00). The second constant is the configuration once its 61 bytes are buffered.
\<close>

definition hello_v3 :: "byte list" where
  "hello_v3 =
     [0x16, 0x03, 0x01, 0x00, 0x3d,
      0x01, 0x00, 0x00, 0x39, 0x03, 0x03,
      0x5f, 0x10, 0x21, 0x32, 0x43, 0x54, 0x65, 0x76, 0x87, 0x98, 0xa9, 0xba, 0xcb, 0xdc, 0xed, 0xfe,
      0x0f, 0x1e, 0x2d, 0x3c, 0x4b, 0x5a, 0x69, 0x78, 0x87, 0x96, 0xa5, 0xb4, 0xc3, 0xd2, 0xe1, 0xf0,
      0x00,
      0x00, 0x02, 0x00, 0x2f,
      0x01, 0x00,
      0x00, 0x0e,
      0x00, 0x0a, 0x00, 0x04, 0x00, 0x02, 0x00, 0x17,
      0x00, 0x0b, 0x00, 0x02, 0x01, 0x00]"

definition hello_v3_buffered :: sslhaf_cfg_t where
  "hello_v3_buffered =
     sslhaf_pre_conn\<lparr>state := STATE_BUFFER, buf_protocol := 22, buf := Some (drop 5 hello_v3),
       buf_len := 61, buf_to_go := 0, hello_version := 3, protocol_high := 3, protocol_low := 1\<rparr>"

text \<open>
  The second half of the loop body of \<open>decode_bucket\<close> (lines 890-934) in two named
  parts, for the proofs: what is done with a record once it is whole (lines 902-924), and
  the copy of the input into the record buffer (lines 892-900 and 926-932).
\<close>

definition complete_packet :: "sslhaf_cfg_t \<Rightarrow> fault + (int \<times> sslhaf_cfg_t)" where
  "complete_packet cfg2 =
     bindF (if hello_version cfg2 = 3 then decode_packet_v3 cfg2 else decode_packet_v2 cfg2)
       (\<lambda>(rc, cfg3).
          let cfg4 = cfg3\<lparr>buf := None, state := STATE_GOAWAY\<rparr> in
          if rc < 0 then Inr (- 1, cfg4) else Inr (1, cfg4))"

definition buffer_step :: "sslhaf_cfg_t \<Rightarrow> byte list \<Rightarrow> fault + (int \<times> sslhaf_cfg_t)" where
  "buffer_step cfg1 inputbuf1 =
     (if buf_to_go cfg1 \<le> length inputbuf1 then
        bindF (memcpy (buf cfg1) (buf_len cfg1) inputbuf1 (buf_to_go cfg1)) (\<lambda>d.
          complete_packet (cfg1\<lparr>buf := Some d, buf_len := buf_len cfg1 + buf_to_go cfg1,
                                 buf_to_go := 0\<rparr>))
      else
        bindF (memcpy (buf cfg1) (buf_len cfg1) inputbuf1 (length inputbuf1)) (\<lambda>d.
          Inr (1, cfg1\<lparr>buf := Some d, buf_len := buf_len cfg1 + length inputbuf1,
                        buf_to_go := buf_to_go cfg1 - length inputbuf1\<rparr>)))"

text \<open>What the filter makes of the return code of \<open>decode_bucket\<close> (lines 990-998).\<close>

definition settle :: "int \<times> sslhaf_cfg_t \<Rightarrow> fault + sslhaf_cfg_t" where
  "settle r = (case r of (rc, cfg') \<Rightarrow> if rc \<le> 0 then Inr (cfg'\<lparr>state := STATE_GOAWAY\<rparr>) else Inr cfg')"

text \<open>
  A sequence of chunks fed to the filter, each as the one data bucket of a brigade of
  its own; and the invariant of a configuration that is buffering a record.
\<close>

definition feed_chunks :: "(nat \<Rightarrow> bool) \<Rightarrow> sslhaf_cfg_t \<Rightarrow> byte list list \<Rightarrow> fault + sslhaf_cfg_t" where
  "feed_chunks malloc_ok cfg chunks = feed malloc_ok cfg (map (\<lambda>c. Brigade [Data c]) chunks)"

definition buffering_ok :: "sslhaf_cfg_t \<Rightarrow> bool" where
  "buffering_ok cfg =
     (state cfg = STATE_BUFFER \<and> 0 < buf_to_go cfg \<and>
      (case buf cfg of None \<Rightarrow> False | Some d \<Rightarrow> length d = buf_len cfg + buf_to_go cfg))"

text \<open>What the decoder makes of that hello.\<close>

definition hello_v3_decoded :: sslhaf_cfg_t where
  "hello_v3_decoded =
     hello_v3_buffered\<lparr>protocol_high := 3, protocol_low := 3, slen := 1, suites := Some 41,
       thandshake := Some ''3'', tprotocol := Some ''3.3'', tsuites := Some ''2f'',
       compression_len := 1, compression_methods := Some ''00'', extensions_len := 2,
       extensions := Some ''000a,000b'',
       client_hello := Some ''160301003d0100003903035f102132435465768798a9bacbdcedfe0f1e2d3c4b5a69788796a5b4c3d2e1f0000002002f0100000e000a000400020017000b00020100'',
       ec_point := Some ''00'', curves := Some ''0017'', curve_len := 1\<rparr>"

text \<open>What the filter makes of the SSLv2 hello.\<close>

definition google_parsed :: sslhaf_cfg_t where
  "google_parsed =
     sslhaf_pre_conn\<lparr>state := STATE_GOAWAY, buf := None, buf_len := 34, buf_to_go := 0,
       hello_version := 2, protocol_high := 3, protocol_low := 1, slen := 4, suites := Some 6,
       thandshake := Some ''2'', tprotocol := Some ''3.1'', tsuites := Some ''04,010080,05,0a'',
       client_hello := Some ''8025010301000c0000001000000401008000000500000a3a1f5c0977e241900bd46823fe15a6c8''\<rparr>"

text \<open>
  Two records whose extensions declare more than the message holds: a supported-groups
  extension whose list declares 8 bytes where 2 are left, and an extension 0023 that
  declares 256 bytes of data where 2 are left.
\<close>

definition groups_overrun :: "byte list" where
  "groups_overrun =
     [0x16, 0x03, 0x01, 0x00, 0x37,
      0x01, 0x00, 0x00, 0x33, 0x03, 0x03,
      0x5f, 0x10, 0x21, 0x32, 0x43, 0x54, 0x65, 0x76, 0x87, 0x98, 0xa9, 0xba, 0xcb, 0xdc, 0xed, 0xfe,
      0x0f, 0x1e, 0x2d, 0x3c, 0x4b, 0x5a, 0x69, 0x78, 0x87, 0x96, 0xa5, 0xb4, 0xc3, 0xd2, 0xe1, 0xf0,
      0x00,
      0x00, 0x02, 0x00, 0x2f,
      0x01, 0x00,
      0x00, 0x08,
      0x00, 0x0a, 0x00, 0x04, 0x00, 0x08, 0x00, 0x17]"

definition extension_overrun :: "byte list" where
  "extension_overrun =
     [0x16, 0x03, 0x01, 0x00, 0x35,
      0x01, 0x00, 0x00, 0x31, 0x03, 0x03,
      0x5f, 0x10, 0x21, 0x32, 0x43, 0x54, 0x65, 0x76, 0x87, 0x98, 0xa9, 0xba, 0xcb, 0xdc, 0xed, 0xfe,
      0x0f, 0x1e, 0x2d, 0x3c, 0x4b, 0x5a, 0x69, 0x78, 0x87, 0x96, 0xa5, 0xb4, 0xc3, 0xd2, 0xe1, 0xf0,
      0x00,
      0x00, 0x02, 0x00, 0x2f,
      0x01, 0x00,
      0x00, 0x06,
      0x00, 0x23, 0x01, 0x00, 0xaa, 0xbb]"

text \<open>
  The TLS hello with the EC-point-formats extension only (no supported groups), and what
  the filter makes of it.
\<close>

definition hello_no_groups :: "byte list" where
  "hello_no_groups =
     [0x16, 0x03, 0x01, 0x00, 0x35,
      0x01, 0x00, 0x00, 0x31, 0x03, 0x03,
      0x5f, 0x10, 0x21, 0x32, 0x43, 0x54, 0x65, 0x76, 0x87, 0x98, 0xa9, 0xba, 0xcb, 0xdc, 0xed, 0xfe,
      0x0f, 0x1e, 0x2d, 0x3c, 0x4b, 0x5a, 0x69, 0x78, 0x87, 0x96, 0xa5, 0xb4, 0xc3, 0xd2, 0xe1, 0xf0,
      0x00,
      0x00, 0x02, 0x00, 0x2f,
      0x01, 0x00,
      0x00, 0x06,
      0x00, 0x0b, 0x00, 0x02, 0x01, 0x00]"

definition hello_no_groups_parsed :: sslhaf_cfg_t where
  "hello_no_groups_parsed =
     sslhaf_pre_conn\<lparr>state := STATE_GOAWAY, buf_protocol := 22, buf := None, buf_len := 53,
       buf_to_go := 0, hello_version := 3, protocol_high := 3, protocol_low := 3, slen := 1,
       suites := Some 41, thandshake := Some ''3'', tprotocol := Some ''3.3'',
       tsuites := Some ''2f'', compression_len := 1, compression_methods := Some ''00'',
       extensions_len := 1, extensions := Some ''000b'',
       client_hello := Some ''16030100350100003103035f102132435465768798a9bacbdcedfe0f1e2d3c4b5a69788796a5b4c3d2e1f0000002002f01000006000b00020100'',
       ec_point := Some ''00'', curve_len := 1\<rparr>"

text \<open>
  The 25 suites of a browser-like ClientHello and their text, and the text of a list of
  17 suites.
\<close>

definition suites25 :: "byte list" where
  "suites25 =
     [0xc0, 0x2b, 0xc0, 0x2f, 0xc0, 0x2c, 0xc0, 0x30, 0xcc, 0xa9, 0xcc, 0xa8, 0xc0, 0x13,
      0xc0, 0x14, 0x00, 0x9c, 0x00, 0x9d, 0x00, 0x2f, 0x00, 0x35, 0x00, 0x0a, 0xc0, 0x09,
      0xc0, 0x0a, 0xc0, 0x23, 0xc0, 0x27, 0xc0, 0x24, 0xc0, 0x28, 0x00, 0x33, 0x00, 0x39,
      0x00, 0x67, 0x00, 0x6b, 0x00, 0x9e, 0x00, 0x9f]"

definition suites25_text :: string where
  "suites25_text =
     ''c02b,c02f,c02c,c030,cca9,cca8,c013,c014,9c,9d,2f,35,0a,c009,c00a,c023,c027,c024,c028,33,39,67,6b,9e,9f''"

definition suites17_text :: string where
  "suites17_text =
     ''c02b,c02f,c02c,c030,cca9,cca8,c013,c014,c009,c00a,c023,c027,c024,c028,c011,c012,c007''"

text \<open>
  The normalizer as the specification words it (section 4.6): split on commas, drop the
  GREASE tokens, convert each hexadecimal token to its unsigned decimal form, join with
  hyphens. \<open>hex_value\<close> is the value of a string of the digits 0-9 and a-f.
\<close>

definition hex_digit :: "char \<Rightarrow> bool" where
  "hex_digit c = ((48 \<le> (of_char c :: nat) \<and> (of_char c :: nat) \<le> 57) \<or>
                  (97 \<le> (of_char c :: nat) \<and> (of_char c :: nat) \<le> 102))"

definition hex_digit_value :: "char \<Rightarrow> nat" where
  "hex_digit_value c = (if (of_char c :: nat) \<le> 57 then of_char c - 48 else of_char c - 87)"

fun hex_value :: "string \<Rightarrow> nat" where
  "hex_value [] = 0"
| "hex_value (c # cs) = hex_digit_value c * 16 ^ length cs + hex_value cs"

fun hyphen_join :: "string list \<Rightarrow> string" where
  "hyphen_join [] = []"
| "hyphen_join [t] = t"
| "hyphen_join (t # ts) = t @ ''-'' @ hyphen_join ts"

definition spec_normalize :: "string \<Rightarrow> string" where
  "spec_normalize s =
     hyphen_join (map (\<lambda>t. fmt_d (hex_value t)) (filter (\<lambda>t. t \<notin> set grease_table) (strtok s)))"

section \<open>Basic facts\<close>

lemmas protocol_defs = PROTOCOL_HANDSHAKE_def PROTOCOL_APPLICATION_def PROTOCOL_CHANGE_CIPHER_SPEC_def

lemma unat_byte_lt: "unat (x :: byte) < 256"
  using unsigned_less [of x, where ?'a = nat] by simp

lemma size_t_small: "n < 3 \<Longrightarrow> size_t_of_int (int n - 3) > BUF_LIMIT"
  unfolding size_t_of_int_def BUF_LIMIT_def
  by (cases "n = 0"; cases "n = 1"; cases "n = 2") auto

lemma size_t_big: "3 \<le> n \<Longrightarrow> n < 256 \<Longrightarrow> size_t_of_int (int n - 3) = n - 3"
  unfolding size_t_of_int_def
  by (simp add: nat_diff_distrib')

lemma start_packet_Buffering:
  assumes "start_packet malloc_ok cfg inputbuf = Inr (Buffering cfg1 rest)"
  shows "0 < buf_to_go cfg1" "buf_to_go cfg1 \<le> BUF_LIMIT"
    "buf cfg1 = Some (malloc_block (buf_to_go cfg1))" "malloc_ok (buf_to_go cfg1)"
    "buf_len cfg1 = 0" "state cfg1 = STATE_BUFFER"
  using assms
  by (auto simp: start_packet_def bindF_def Let_def split: sum.splits if_splits)

lemma start_packet_Returned:
  assumes "start_packet malloc_ok cfg inputbuf = Inr (Returned rc c)"
  shows "rc = - 1" "state c = state cfg" "buf_len c = buf_len cfg" "buf_to_go c = buf_to_go cfg"
    "buf c = buf cfg \<or> buf c = None"
  using assms
  by (auto simp: start_packet_def bindF_def Let_def split: sum.splits if_splits)

lemma decode_bucket_start_Returned:
  assumes "state cfg = STATE_START \<or> state cfg = STATE_READING" "inputbuf \<noteq> []"
    "start_packet malloc_ok cfg inputbuf = Inr (Returned rc c)"
  shows "decode_bucket malloc_ok cfg inputbuf = Inr (rc, c)"
  using assms by (subst decode_bucket.simps) auto

lemma legal_transition_trans:
  "legal_transition s s' \<Longrightarrow> legal_transition s' s'' \<Longrightarrow> legal_transition s s''"
  by (cases s; cases s'; cases s'') (simp_all add: legal_transition_def)

lemma legal_transition_refl [simp]: "legal_transition s s"
  by (simp add: legal_transition_def)

lemma legal_transition_GOAWAY: "s \<noteq> STATE_READING \<Longrightarrow> legal_transition s STATE_GOAWAY"
  by (cases s) (simp_all add: legal_transition_def)

lemma decode_bucket_Nil [simp]: "decode_bucket malloc_ok cfg [] = Inr (1, cfg)"
  by (subst decode_bucket.simps) simp

lemma decode_bucket_GOAWAY: "state cfg = STATE_GOAWAY \<Longrightarrow> decode_bucket malloc_ok cfg inputbuf = Inr (1, cfg)"
  by (subst decode_bucket.simps) simp

lemma decode_bucket_transition:
  assumes "state cfg \<noteq> STATE_READING" "decode_bucket malloc_ok cfg inputbuf = Inr (rc, cfg')"
  shows "legal_transition (state cfg) (state cfg') \<and> state cfg' \<noteq> STATE_READING"
proof (cases "inputbuf = [] \<or> state cfg = STATE_GOAWAY")
  case True
  with assms show ?thesis
    by (auto simp: decode_bucket_GOAWAY)
next
  case False
  then have ne: "inputbuf \<noteq> []" and ng: "state cfg \<noteq> STATE_GOAWAY"
    by simp_all
  show ?thesis
  proof (cases "state cfg = STATE_START")
    case True
    show ?thesis
    proof (cases "start_packet malloc_ok cfg inputbuf")
      case (Inl e)
      with assms True ne show ?thesis
        by (subst (asm) decode_bucket.simps) simp
    next
      case (Inr r)
      show ?thesis
      proof (cases r)
        case (Returned rc0 c)
        with Inr True ne have "decode_bucket malloc_ok cfg inputbuf = Inr (rc0, c)"
          by (intro decode_bucket_start_Returned) simp_all
        with assms have "cfg' = c" by simp
        with start_packet_Returned(2) [of malloc_ok cfg inputbuf rc0 c] Inr Returned assms(1)
        show ?thesis by simp
      next
        case (Buffering cfg1 inputbuf1)
        with Inr have sb: "state cfg1 = STATE_BUFFER"
          by (simp add: start_packet_state)
        from assms(2) True ne Inr Buffering sb
        have "state cfg' = STATE_BUFFER \<or> state cfg' = STATE_GOAWAY"
          by (subst (asm) decode_bucket.simps)
            (auto simp: bindF_def Let_def split: if_splits sum.splits prod.splits)
        with True show ?thesis
          by (auto simp: legal_transition_def)
      qed
    qed
  next
    case False
    with ng assms(1) have sb: "state cfg = STATE_BUFFER"
      by (cases "state cfg") simp_all
    from assms(2) ne sb
    have "state cfg' = STATE_BUFFER \<or> state cfg' = STATE_GOAWAY"
      by (subst (asm) decode_bucket.simps)
        (auto simp: bindF_def Let_def split: if_splits sum.splits prod.splits)
    with sb show ?thesis
      by (auto simp: legal_transition_def)
  qed
qed

lemma buckets_loop_transition:
  "state cfg \<noteq> STATE_READING \<Longrightarrow> buckets_loop malloc_ok cfg bb = Inr cfg' \<Longrightarrow>
   legal_transition (state cfg) (state cfg') \<and> state cfg' \<noteq> STATE_READING"
proof (induction malloc_ok cfg bb rule: buckets_loop.induct)
  case (4 malloc_ok cfg inputbuf bb)
  from "4.prems"(2) obtain rc c where d: "decode_bucket malloc_ok cfg inputbuf = Inr (rc, c)"
    by (cases "decode_bucket malloc_ok cfg inputbuf") auto
  from decode_bucket_transition [OF "4.prems"(1) d]
  have l: "legal_transition (state cfg) (state c)" and nr: "state c \<noteq> STATE_READING"
    by simp_all
  show ?case
  proof (cases "rc \<le> 0")
    case True
    with "4.prems"(2) d have "state cfg' = STATE_GOAWAY" by auto
    with "4.prems"(1) show ?thesis by (simp add: legal_transition_GOAWAY)
  next
    case False
    show ?thesis
    proof (cases "state c = STATE_GOAWAY")
      case True
      with False "4.prems"(2) d have "cfg' = c" by auto
      with l nr show ?thesis by simp
    next
      case g: False
      with False "4.prems"(2) d have b: "buckets_loop malloc_ok c bb = Inr cfg'" by auto
      from "4.IH" [OF d refl False g nr b] l
      show ?thesis by (blast intro: legal_transition_trans)
    qed
  qed
qed auto

lemma sslhaf_in_filter_transition:
  "state cfg \<noteq> STATE_READING \<Longrightarrow> sslhaf_in_filter malloc_ok cfg bb = Inr cfg' \<Longrightarrow>
   legal_transition (state cfg) (state cfg') \<and> state cfg' \<noteq> STATE_READING"
  by (cases bb)
    (auto simp: sslhaf_in_filter_def legal_transition_GOAWAY split: if_splits
      dest: buckets_loop_transition)

lemma feed_transition:
  "state cfg \<noteq> STATE_READING \<Longrightarrow> feed malloc_ok cfg bbs = Inr cfg' \<Longrightarrow>
   legal_transition (state cfg) (state cfg') \<and> state cfg' \<noteq> STATE_READING"
proof (induction bbs arbitrary: cfg)
  case Nil
  then show ?case by simp
next
  case (Cons bb bbs)
  from Cons.prems(2) obtain c where f: "sslhaf_in_filter malloc_ok cfg bb = Inr c"
    and r: "feed malloc_ok c bbs = Inr cfg'"
    by (cases "sslhaf_in_filter malloc_ok cfg bb") auto
  from sslhaf_in_filter_transition [OF Cons.prems(1) f] Cons.IH [OF _ r]
  show ?case by (blast intro: legal_transition_trans)
qed

lemma feed_GOAWAY: "state cfg = STATE_GOAWAY \<Longrightarrow> feed malloc_ok cfg bbs = Inr cfg"
  by (induction bbs) (simp_all add: sslhaf_in_filter_def)

text \<open>Unfolding rules for running the functions on given bytes.\<close>

lemma replicate_numeral: "replicate (numeral k) x = x # replicate (pred_numeral k) x"
  by (simp add: numeral_eq_Suc)

lemmas run_defs = replicate_numeral decode_bucket.simps start_packet_def rd_def rd16_def decode_packet_v2_def
  decode_packet_v3_def decode_packet_v3_handshake_def v3_client_hello_def v3_cipher_suites_def
  v3_compression_def v3_extensions_def
  hex_loop.simps v2_suites_loop.simps v3_suites_loop.simps compression_loop.simps
  curves_loop.simps ec_point_loop.simps extensions_loop.simps
  c2x_def c2x_table_def fmt_d.simps memcpy_def malloc_block_def size_t_of_int_def
  BUF_LIMIT_def protocol_defs sslhaf_pre_conn_def sslhaf_in_filter_def Let_def

lemma join_onto_Nil [simp]: "join_onto q [] = q"
  by (simp add: join_onto_def)

lemma join_onto_Cons [simp]:
  "join_onto q (t # ts) = join_onto ((if q \<noteq> [] then q @ '','' else q) @ t) ts"
  by (simp add: join_onto_def)

lemma join_onto_nonempty:
  "q \<noteq> [] \<Longrightarrow> join_onto q ts = q @ concat (map (\<lambda>t. '','' @ t) ts)"
  by (induction ts arbitrary: q) simp_all

lemma comma_join_Cons: "comma_join (t # ts) = t @ concat (map (\<lambda>t. '','' @ t) ts)"
  by (induction ts arbitrary: t) simp_all

lemma join_onto_comma_join:
  "\<forall>t \<in> set ts. t \<noteq> [] \<Longrightarrow> join_onto [] ts = comma_join ts"
  by (cases ts) (simp_all add: join_onto_nonempty comma_join_Cons)

lemma c2x_length [simp]: "length (c2x w) = 2"
  by (simp add: c2x_def Let_def)

lemma c2x_not_Nil [simp]: "c2x w \<noteq> []"
  by (simp add: c2x_def Let_def)

lemma v2_token_not_Nil [simp]: "v2_token b0 b1 b2 \<noteq> []"
  by (simp add: v2_token_def)

lemma rd_in_range [simp]: "i < length b \<Longrightarrow> rd b i = Inr (unat (b ! i))"
  by (simp add: rd_def)

lemma rd_out_of_range [simp]: "length b \<le> i \<Longrightarrow> rd b i = Inl OutOfBoundsRead"
  by (simp add: rd_def)

lemma hex_loop_in_range:
  "p + n \<le> length b \<Longrightarrow>
   hex_loop b p n q = Inr (q @ concat (map (\<lambda>x. c2x (unat x)) (take n (drop p b))))"
proof (induction n arbitrary: p q)
  case 0
  then show ?case by (simp add: hex_loop.simps)
next
  case (Suc n)
  then have lt: "p < length b" and le: "Suc p + n \<le> length b"
    by simp_all
  have t: "take (Suc n) (drop p b) = b ! p # take n (drop (Suc p) b)"
    by (subst Cons_nth_drop_Suc [OF lt, symmetric]) simp
  have "hex_loop b p (Suc n) q = hex_loop b (Suc p) n (q @ c2x (unat (b ! p)))"
    using lt by (subst hex_loop.simps) simp
  also have "\<dots> = Inr ((q @ c2x (unat (b ! p))) @
               concat (map (\<lambda>x. c2x (unat x)) (take n (drop (Suc p) b))))"
    by (rule Suc.IH [OF le])
  finally show ?case
    by (simp add: t)
qed

lemma length_triplets [simp]: "length (triplets xs) = length xs div 3"
  by (induction xs rule: triplets.induct) simp_all

lemma triplets_take_length:
  "triplets (take (3 * (length xs div 3)) xs) = triplets xs"
proof (induction xs rule: triplets.induct)
  case (1 b0 b1 b2 rest)
  have "length (b0 # b1 # b2 # rest) div 3 = Suc (length rest div 3)"
    by simp
  then have "take (3 * (length (b0 # b1 # b2 # rest) div 3)) (b0 # b1 # b2 # rest) =
             b0 # b1 # b2 # take (3 * (length rest div 3)) rest"
    by (simp only: mult_Suc_right numeral_3_eq_3 add_Suc take_Suc_Cons add_0)
  with "1.IH" show ?case
    by simp
qed simp_all

lemma triplets_take_div:
  "n \<le> length xs \<Longrightarrow> triplets (take (3 * (n div 3)) xs) = triplets (take n xs)"
proof -
  assume a: "n \<le> length xs"
  have "3 * (n div 3) \<le> n"
    by simp
  with a have "take (3 * (n div 3)) xs = take (3 * (length (take n xs) div 3)) (take n xs)"
    by (simp add: min_def)
  then show ?thesis
    by (simp only: triplets_take_length)
qed

lemma drop_three:
  "p + 3 \<le> length b \<Longrightarrow> drop p b = b ! p # b ! (p + 1) # b ! (p + 2) # drop (p + 3) b"
proof -
  assume a: "p + 3 \<le> length b"
  then have "drop p b = b ! p # drop (Suc p) b"
    by (simp add: Cons_nth_drop_Suc)
  also from a have "drop (Suc p) b = b ! Suc p # drop (Suc (Suc p)) b"
    by (simp add: Cons_nth_drop_Suc)
  also from a have "drop (Suc (Suc p)) b = b ! Suc (Suc p) # drop (Suc (Suc (Suc p))) b"
    by (simp add: Cons_nth_drop_Suc)
  finally show ?thesis
    by (simp add: numeral_3_eq_3)
qed

lemma v2_suites_loop_in_range:
  "p + 3 * n \<le> length b \<Longrightarrow>
   v2_suites_loop b p n q =
     Inr (join_onto q (map (\<lambda>(b0, b1, b2). v2_token b0 b1 b2) (triplets (take (3 * n) (drop p b)))))"
proof (induction n arbitrary: p q)
  case 0
  then show ?case by (simp add: v2_suites_loop.simps)
next
  case (Suc n)
  then have le3: "p + 3 \<le> length b" and le: "(p + 3) + 3 * n \<le> length b"
    by simp_all
  let ?q = "(if q \<noteq> [] then q @ '','' else q) @ v2_token (b ! p) (b ! (p + 1)) (b ! (p + 2))"
  have t: "take (3 * Suc n) (drop p b) =
           b ! p # b ! (p + 1) # b ! (p + 2) # take (3 * n) (drop (p + 3) b)"
    by (subst drop_three [OF le3]) (simp add: numeral_3_eq_3)
  have "v2_suites_loop b p (Suc n) q = v2_suites_loop b (p + 3) n ?q"
    using le3 by (subst v2_suites_loop.simps) (simp add: v2_token_def Let_def unat_gt_0)
  also have "\<dots> = Inr (join_onto ?q (map (\<lambda>(b0, b1, b2). v2_token b0 b1 b2)
                         (triplets (take (3 * n) (drop (p + 3) b)))))"
    by (rule Suc.IH [OF le])
  finally show ?case
    by (simp only: t triplets.simps list.map prod.case join_onto_Cons)
qed

lemma extensions_loop_frame:
  "extensions_loop b p elen q cfg = Inr (q', cfg') \<Longrightarrow>
   tprotocol cfg' = tprotocol cfg \<and> protocol_high cfg' = protocol_high cfg \<and>
   protocol_low cfg' = protocol_low cfg \<and> thandshake cfg' = thandshake cfg \<and>
   tsuites cfg' = tsuites cfg \<and> compression_methods cfg' = compression_methods cfg \<and>
   state cfg' = state cfg \<and> hello_version cfg' = hello_version cfg"
proof (induction b p elen q cfg rule: extensions_loop.induct)
  case (1 b p elen q cfg)
  show ?case
  proof (cases "elen > 0")
    case False
    with "1.prems" show ?thesis
      by (subst (asm) extensions_loop.simps) simp
  next
    case True
    from "1.prems" True obtain b1 b2 ext1len where
      r: "rd b p = Inr b1" "rd b (p + 1) = Inr b2" "rd16 b (p + 2) = Inr ext1len"
      by (subst (asm) extensions_loop.simps) (auto simp: bindF_def Let_def split: sum.splits)
    let ?cfg1 = "cfg\<lparr>extensions_len := extensions_len cfg + 1\<rparr>"
    let ?q2 = "(if q \<noteq> [] then q @ '','' else q) @ c2x b1 @ c2x b2"
    consider (groups) "b1 * 256 + b2 = 10" | (points) "b1 * 256 + b2 = 11"
      | (other) "b1 * 256 + b2 \<noteq> 10" "b1 * 256 + b2 \<noteq> 11"
      by blast
    then show ?thesis
    proof cases
      case groups
      from "1.prems" True r groups obtain ec_len p' e where
        s: "rd16 b (p + 4) = Inr ec_len" "curves_loop b (p + 6) (int ec_len) [] = Inr (p', e)"
        "extensions_loop b p' (elen - 4 - int ext1len) ?q2 (?cfg1\<lparr>curves := Some e\<rparr>) = Inr (q', cfg')"
        by (subst (asm) extensions_loop.simps)
          (auto simp: bindF_def Let_def split: sum.splits prod.splits)
      from "1.IH"(1) [OF True refl refl r(1) r(2) refl refl r(3) groups s(1) s(2) refl s(3)]
      show ?thesis by simp
    next
      case points
      from "1.prems" True r points obtain curve_len_1 p' c where
        s: "rd b (p + 4) = Inr curve_len_1" "ec_point_loop b (p + 5) (int curve_len_1) [] = Inr (p', c)"
        "extensions_loop b p' (elen - 4 - int ext1len) ?q2
           (?cfg1\<lparr>curve_len := int curve_len_1, ec_point := Some c\<rparr>) = Inr (q', cfg')"
        by (subst (asm) extensions_loop.simps)
          (auto simp: bindF_def Let_def split: sum.splits prod.splits)
      have ne: "b1 * 256 + b2 \<noteq> 10" using points by simp
      from "1.IH"(2) [OF True refl refl r(1) r(2) refl refl r(3) ne points s(1) s(2) refl s(3)]
      show ?thesis by simp
    next
      case other
      from "1.prems" True r other have
        s: "extensions_loop b (p + 4 + ext1len) (elen - 4 - int ext1len) ?q2 ?cfg1 = Inr (q', cfg')"
        by (subst (asm) extensions_loop.simps)
          (auto simp: bindF_def Let_def split: sum.splits prod.splits)
      from "1.IH"(3) [OF True refl refl r(1) r(2) refl refl r(3) other s]
      show ?thesis by simp
    qed
  qed
qed


lemma rd_Inr: "rd b i = Inr x \<Longrightarrow> i < length b \<and> x = unat (b ! i)"
  by (auto simp: rd_def split: if_splits)

lemma v3_extensions_frame:
  "v3_extensions b p mylen cfg = Inr (rc, cfg') \<Longrightarrow>
   tprotocol cfg' = tprotocol cfg \<and> protocol_high cfg' = protocol_high cfg \<and>
   protocol_low cfg' = protocol_low cfg"
  by (auto simp: v3_extensions_def bindF_def Let_def split: if_splits sum.splits prod.splits
      dest!: extensions_loop_frame)

lemma v3_compression_frame:
  "v3_compression b p mylen cfg = Inr (rc, cfg') \<Longrightarrow>
   tprotocol cfg' = tprotocol cfg \<and> protocol_high cfg' = protocol_high cfg \<and>
   protocol_low cfg' = protocol_low cfg"
  by (auto simp: v3_compression_def bindF_def Let_def split: if_splits sum.splits prod.splits
      dest!: v3_extensions_frame)

lemma v3_cipher_suites_version:
  "v3_cipher_suites b p mylen cfg = Inr (rc, cfg') \<Longrightarrow>
   protocol_high cfg' = protocol_high cfg \<and> protocol_low cfg' = protocol_low cfg \<and>
   (if rc = - 6 \<or> rc = - 7 then tprotocol cfg' = tprotocol cfg
    else tprotocol cfg' = Some (fmt_d (protocol_high cfg) @ ''.'' @ fmt_d (protocol_low cfg)))"
proof -
  assume a: "v3_cipher_suites b p mylen cfg = Inr (rc, cfg')"
  show ?thesis
  proof (cases "mylen < 2")
    case True
    with a show ?thesis by (simp add: v3_cipher_suites_def)
  next
    case False
    with a obtain cs_bytes where r: "rd16 b p = Inr cs_bytes"
      by (auto simp: v3_cipher_suites_def bindF_def split: sum.splits)
    show ?thesis
    proof (cases "mylen - 2 < cs_bytes div 2 * 2")
      case True
      with a False r show ?thesis by (simp add: v3_cipher_suites_def)
    next
      case fit: False
      let ?cfg1 = "cfg\<lparr>slen := cs_bytes div 2, suites := Some (p + 2),
                         thandshake := Some (fmt_d (hello_version cfg)),
                         tprotocol := Some (fmt_d (protocol_high cfg) @ ''.'' @
                                            fmt_d (protocol_low cfg))\<rparr>"
      from a False r fit obtain ts where
        c: "v3_compression b (p + 2 + 2 * (cs_bytes div 2)) (mylen - 2 - cs_bytes div 2 * 2)
              (?cfg1\<lparr>tsuites := Some ts\<rparr>) = Inr (rc, cfg')"
        by (auto simp: v3_cipher_suites_def bindF_def Let_def split: sum.splits)
      have rc: "rc \<noteq> - 6 \<and> rc \<noteq> - 7"
        using c
        by (auto simp: v3_compression_def v3_extensions_def bindF_def Let_def
            split: if_splits sum.splits prod.splits)
      from v3_compression_frame [OF c] rc show ?thesis
        by simp
    qed
  qed
qed

lemma v3_client_hello_version:
  assumes "v3_client_hello b ml cfg = Inr (rc, cfg')"
  shows "(rc = - 3 \<and> cfg' = cfg) \<or>
         (5 < length b \<and> protocol_high cfg' = unat (b ! 4) \<and> protocol_low cfg' = unat (b ! 5) \<and>
          (if rc \<in> {- 4, - 5, - 6, - 7} then tprotocol cfg' = tprotocol cfg
           else tprotocol cfg' = Some (fmt_d (unat (b ! 4)) @ ''.'' @ fmt_d (unat (b ! 5)))))"
proof (cases "ml < 34")
  case True
  with assms show ?thesis by (simp add: v3_client_hello_def)
next
  case False
  with assms obtain high low where r: "rd b 4 = Inr high" "rd b 5 = Inr low"
    by (auto simp: v3_client_hello_def bindF_def split: sum.splits)
  then have b: "5 < length b" "high = unat (b ! 4)" "low = unat (b ! 5)"
    by (auto dest: rd_Inr)
  let ?cfg1 = "cfg\<lparr>protocol_high := high, protocol_low := low\<rparr>"
  show ?thesis
  proof (cases "ml - 34 < 1")
    case True
    with assms False r b show ?thesis
      by (auto simp: v3_client_hello_def Let_def)
  next
    case m: False
    with assms False r obtain idlen where i: "rd b 38 = Inr idlen"
      by (auto simp: v3_client_hello_def bindF_def Let_def split: sum.splits)
    show ?thesis
    proof (cases "ml - 34 - 1 < idlen")
      case True
      with assms False r b m i show ?thesis
        by (auto simp: v3_client_hello_def Let_def)
    next
      case n: False
      with assms False r m i have
        c: "v3_cipher_suites b (39 + idlen) (ml - 34 - 1 - idlen) ?cfg1 = Inr (rc, cfg')"
        by (auto simp: v3_client_hello_def Let_def)
      have rc: "rc \<noteq> - 4 \<and> rc \<noteq> - 5"
        using c
        by (auto simp: v3_cipher_suites_def v3_compression_def v3_extensions_def bindF_def Let_def
            split: if_splits sum.splits prod.splits)
      from v3_cipher_suites_version [OF c] rc b show ?thesis
        by (auto split: if_splits)
    qed
  qed
qed

lemma v3_client_hello_rc:
  "v3_client_hello b ml cfg = Inr (rc, cfg') \<Longrightarrow> rc = 1 \<or> rc < 0"
  by (auto simp: v3_client_hello_def v3_cipher_suites_def v3_compression_def v3_extensions_def
      bindF_def Let_def split: if_splits sum.splits prod.splits)

lemma decode_packet_v3_handshake_version:
  assumes "buf cfg = Some b" and "decode_packet_v3_handshake cfg = Inr (rc, cfg')"
    and "tprotocol cfg' \<noteq> tprotocol cfg \<or> (rc = 1 \<and> rd b 0 = Inr 1)"
  shows "5 < length b \<and> protocol_high cfg' = unat (b ! 4) \<and> protocol_low cfg' = unat (b ! 5) \<and>
         tprotocol cfg' = Some (fmt_d (unat (b ! 4)) @ ''.'' @ fmt_d (unat (b ! 5)))"
proof -
  have ne: "\<not> buf_len cfg < 4"
    using assms by (auto simp: decode_packet_v3_handshake_def Let_def)
  with assms obtain msg_type where t: "rd b 0 = Inr msg_type"
    by (auto simp: decode_packet_v3_handshake_def bindF_def Let_def split: sum.splits)
  have one: "msg_type = 1"
    using assms ne t by (auto simp: decode_packet_v3_handshake_def Let_def split: if_splits)
  from assms ne t one obtain m1 m2 m3 where m: "rd b 1 = Inr m1" "rd b 2 = Inr m2" "rd b 3 = Inr m3"
    by (auto simp: decode_packet_v3_handshake_def bindF_def Let_def split: sum.splits)
  let ?ml = "m1 * 65536 + m2 * 256 + m3"
  have fit: "\<not> ?ml > buf_len cfg - 4"
    using assms ne t one m by (auto simp: decode_packet_v3_handshake_def Let_def split: if_splits)
  with assms(1,2) ne t one m obtain hello where
    c: "v3_client_hello b ?ml (cfg\<lparr>client_hello := Some hello\<rparr>) = Inr (rc, cfg')"
    by (auto simp: decode_packet_v3_handshake_def bindF_def Let_def split: sum.splits)
  from v3_client_hello_version [OF c] v3_client_hello_rc [OF c] assms(3)
  show ?thesis
    by (auto split: if_splits)
qed

lemma decode_bucket_BUFFER:
  "state cfg = STATE_BUFFER \<Longrightarrow> inputbuf \<noteq> [] \<Longrightarrow>
   decode_bucket malloc_ok cfg inputbuf = buffer_step cfg inputbuf"
  by (subst decode_bucket.simps) (simp add: buffer_step_def complete_packet_def Let_def)

lemma decode_bucket_START:
  "state cfg = STATE_START \<Longrightarrow> inputbuf \<noteq> [] \<Longrightarrow>
   decode_bucket malloc_ok cfg inputbuf =
     bindF (start_packet malloc_ok cfg inputbuf)
       (\<lambda>r. case r of Returned rc cfg' \<Rightarrow> Inr (rc, cfg')
             | Buffering cfg1 inputbuf1 \<Rightarrow> buffer_step cfg1 inputbuf1)"
proof -
  assume a: "state cfg = STATE_START" "inputbuf \<noteq> []"
  show ?thesis
  proof (cases "start_packet malloc_ok cfg inputbuf")
    case (Inl e)
    with a show ?thesis by (subst decode_bucket.simps) simp
  next
    case (Inr r)
    show ?thesis
    proof (cases r)
      case (Returned rc c)
      with Inr a show ?thesis by (subst decode_bucket.simps) simp
    next
      case (Buffering cfg1 inputbuf1)
      with Inr have "state cfg1 = STATE_BUFFER" by (simp add: start_packet_state)
      with Inr Buffering a show ?thesis
        by (subst decode_bucket.simps) (simp add: buffer_step_def complete_packet_def Let_def)
    qed
  qed
qed

lemma filter_chunk:
  "sslhaf_in_filter malloc_ok cfg (Brigade [Data c]) =
     (if state cfg = STATE_GOAWAY then Inr cfg else bindF (decode_bucket malloc_ok cfg c) settle)"
  by (auto simp: sslhaf_in_filter_def settle_def bindF_def split: sum.splits)

lemma buffering_ok_iff:
  "buffering_ok cfg \<longleftrightarrow>
     state cfg = STATE_BUFFER \<and> 0 < buf_to_go cfg \<and>
     (\<exists>d. buf cfg = Some d \<and> length d = buf_len cfg + buf_to_go cfg)"
  by (auto simp: buffering_ok_def split: option.splits)

lemma buffer_step_Nil: "buffering_ok cfg \<Longrightarrow> buffer_step cfg [] = Inr (1, cfg)"
  by (cases cfg) (auto simp: buffering_ok_iff buffer_step_def memcpy_def)

lemma filter_chunk_BUFFER:
  "buffering_ok cfg \<Longrightarrow>
   sslhaf_in_filter malloc_ok cfg (Brigade [Data c]) = bindF (buffer_step cfg c) settle"
proof (cases "c = []")
  case True
  assume "buffering_ok cfg"
  then show ?thesis
    using True by (simp add: filter_chunk buffer_step_Nil buffering_ok_iff)
next
  case False
  assume "buffering_ok cfg"
  then show ?thesis
    using False by (simp add: filter_chunk decode_bucket_BUFFER buffering_ok_iff)
qed

lemma complete_packet_state:
  "complete_packet cfg2 = Inr (rc, c) \<Longrightarrow> state c = STATE_GOAWAY"
  by (auto simp: complete_packet_def bindF_def Let_def split: sum.splits prod.splits if_splits)

lemma settle_state:
  "settle (rc, c) = Inr c' \<Longrightarrow> state c = STATE_GOAWAY \<Longrightarrow> state c' = STATE_GOAWAY"
  by (auto simp: settle_def split: if_splits)

lemma filter_GOAWAY:
  "state cfg = STATE_GOAWAY \<Longrightarrow> sslhaf_in_filter malloc_ok cfg bb = Inr cfg"
  by (simp add: sslhaf_in_filter_def)

lemma buffer_step_complete_append:
  assumes "buf_to_go cfg \<le> length c1"
  shows "buffer_step cfg (c1 @ c2) = buffer_step cfg c1"
  using assms by (simp add: buffer_step_def memcpy_def split: option.splits)

lemma buffer_step_complete_GOAWAY:
  assumes "buf_to_go cfg \<le> length c1" "bindF (buffer_step cfg c1) settle = Inr c'"
  shows "state c' = STATE_GOAWAY"
proof -
  from assms obtain rc c where b: "buffer_step cfg c1 = Inr (rc, c)" and s: "settle (rc, c) = Inr c'"
    by (cases "buffer_step cfg c1") auto
  from b assms(1) have "state c = STATE_GOAWAY"
    by (auto simp: buffer_step_def bindF_def split: sum.splits dest: complete_packet_state)
  with s show ?thesis by (rule settle_state)
qed

lemma buffer_step_partial:
  assumes "buffering_ok cfg" "length c1 < buf_to_go cfg" "buf cfg = Some d"
  shows "buffer_step cfg c1 =
           Inr (1, cfg\<lparr>buf := Some (take (buf_len cfg) d @ c1 @ drop (buf_len cfg + length c1) d),
                         buf_len := buf_len cfg + length c1,
                         buf_to_go := buf_to_go cfg - length c1\<rparr>)"
  using assms by (auto simp: buffer_step_def memcpy_def buffering_ok_iff)

lemma buffer_step_merge:
  assumes ok: "buffering_ok cfg"
  shows "bindF (bindF (buffer_step cfg c1) settle)
           (\<lambda>cfg'. sslhaf_in_filter malloc_ok cfg' (Brigade [Data c2])) =
         bindF (buffer_step cfg (c1 @ c2)) settle"
proof (cases "buf_to_go cfg \<le> length c1")
  case True
  show ?thesis
  proof (cases "bindF (buffer_step cfg c1) settle")
    case (Inl e)
    then show ?thesis by (simp add: buffer_step_complete_append [OF True])
  next
    case (Inr c')
    with True have "state c' = STATE_GOAWAY" by (rule buffer_step_complete_GOAWAY)
    with Inr show ?thesis
      by (simp add: buffer_step_complete_append [OF True] filter_GOAWAY)
  qed
next
  case False
  then have lt: "length c1 < buf_to_go cfg" by simp
  from ok obtain d where d: "buf cfg = Some d" "length d = buf_len cfg + buf_to_go cfg"
    by (auto simp: buffering_ok_iff)
  let ?d1 = "take (buf_len cfg) d @ c1 @ drop (buf_len cfg + length c1) d"
  let ?cfg1 = "cfg\<lparr>buf := Some ?d1, buf_len := buf_len cfg + length c1,
                    buf_to_go := buf_to_go cfg - length c1\<rparr>"
  have s1: "buffer_step cfg c1 = Inr (1, ?cfg1)"
    using ok lt d(1) by (rule buffer_step_partial)
  have ok1: "buffering_ok ?cfg1"
    using ok lt d by (auto simp: buffering_ok_iff)
  have two: "buffer_step ?cfg1 c2 = buffer_step cfg (c1 @ c2)"
  proof (cases "buf_to_go cfg \<le> length c1 + length c2")
    case True
    have "take (buf_len cfg + length c1) ?d1 @ take (buf_to_go cfg - length c1) c2 @
            drop (buf_len cfg + length c1 + (buf_to_go cfg - length c1)) ?d1 =
          take (buf_len cfg) d @ take (buf_to_go cfg) (c1 @ c2) @
            drop (buf_len cfg + buf_to_go cfg) d"
      using lt d(2) by simp
    moreover have "buf_to_go cfg - length c1 \<le> length c2"
      "buf_len cfg + length c1 + (buf_to_go cfg - length c1) = buf_len cfg + buf_to_go cfg"
      using True lt by simp_all
    ultimately show ?thesis
      using True d by (simp add: buffer_step_def memcpy_def)
  next
    case False
    have "take (buf_len cfg + length c1) ?d1 @ c2 @
            drop (buf_len cfg + length c1 + length c2) ?d1 =
          take (buf_len cfg) d @ (c1 @ c2) @
            drop (buf_len cfg + (length c1 + length c2)) d"
      using lt d(2) False by (simp add: ac_simps)
    moreover have "\<not> buf_to_go cfg - length c1 \<le> length c2"
      "buf_to_go cfg - length c1 - length c2 = buf_to_go cfg - (length c1 + length c2)"
      using False lt by simp_all
    ultimately show ?thesis
      using False d by (simp add: buffer_step_def memcpy_def add.assoc)
  qed
  show ?thesis
    by (simp add: s1 settle_def filter_chunk_BUFFER [OF ok1] two)
qed


lemma buffer_step_closed:
  assumes "buffering_ok cfg" "bindF (buffer_step cfg c) settle = Inr cfg'"
  shows "buffering_ok cfg' \<or> state cfg' = STATE_GOAWAY"
proof (cases "buf_to_go cfg \<le> length c")
  case True
  with assms(2) show ?thesis by (simp add: buffer_step_complete_GOAWAY)
next
  case False
  from assms(1) obtain d where d: "buf cfg = Some d" "length d = buf_len cfg + buf_to_go cfg"
    by (auto simp: buffering_ok_iff)
  from False have lt: "length c < buf_to_go cfg" by simp
  from assms(2) show ?thesis
    using assms(1) lt d
    by (auto simp: buffer_step_partial [OF assms(1) lt d(1)] settle_def buffering_ok_iff)
qed

lemma feed_chunks_Nil [simp]: "feed_chunks malloc_ok cfg [] = Inr cfg"
  by (simp add: feed_chunks_def)

lemma feed_chunks_Cons:
  "feed_chunks malloc_ok cfg (c # cs) =
     bindF (sslhaf_in_filter malloc_ok cfg (Brigade [Data c])) (\<lambda>cfg'. feed_chunks malloc_ok cfg' cs)"
  by (simp add: feed_chunks_def)

lemma feed_chunks_GOAWAY:
  "state cfg = STATE_GOAWAY \<Longrightarrow> feed_chunks malloc_ok cfg cs = Inr cfg"
  by (simp add: feed_chunks_def feed_GOAWAY)

lemma feed_chunks_buffering:
  "buffering_ok cfg \<or> state cfg = STATE_GOAWAY \<Longrightarrow>
   feed_chunks malloc_ok cfg cs = sslhaf_in_filter malloc_ok cfg (Brigade [Data (concat cs)])"
proof (induction cs arbitrary: cfg)
  case Nil
  then show ?case
    by (auto simp: filter_chunk_BUFFER buffer_step_Nil settle_def filter_GOAWAY)
next
  case (Cons c cs)
  show ?case
  proof (cases "state cfg = STATE_GOAWAY")
    case True
    then show ?thesis by (simp add: feed_chunks_GOAWAY filter_GOAWAY)
  next
    case False
    with Cons.prems have ok: "buffering_ok cfg" by simp
    have "feed_chunks malloc_ok cfg (c # cs) =
          bindF (bindF (buffer_step cfg c) settle) (\<lambda>cfg'. feed_chunks malloc_ok cfg' cs)"
      by (simp add: feed_chunks_Cons filter_chunk_BUFFER [OF ok])
    also have "\<dots> = bindF (bindF (buffer_step cfg c) settle)
                       (\<lambda>cfg'. sslhaf_in_filter malloc_ok cfg' (Brigade [Data (concat cs)]))"
      by (rule bindF_cong [OF refl]) (rule Cons.IH, rule buffer_step_closed [OF ok])
    also have "\<dots> = bindF (buffer_step cfg (c @ concat cs)) settle"
      by (rule buffer_step_merge [OF ok])
    finally show ?thesis
      by (simp add: filter_chunk_BUFFER [OF ok])
  qed
qed

lemma rd_append: "i < length c \<Longrightarrow> rd (c @ rest) i = rd c i"
  by (simp add: rd_def nth_append)

lemma start_packet_append:
  assumes "5 \<le> length c"
  shows "start_packet malloc_ok cfg (c @ rest) =
           bindF (start_packet malloc_ok cfg c)
             (\<lambda>r. case r of Returned rc cfg' \<Rightarrow> Inr (Returned rc cfg')
                   | Buffering cfg1 inputbuf1 \<Rightarrow> Inr (Buffering cfg1 (inputbuf1 @ rest)))"
proof -
  obtain b0 b1 b2 b3 b4 tl where c: "c = b0 # b1 # b2 # b3 # b4 # tl"
    using assms by (cases c; cases "tl c"; cases "tl (tl c)"; cases "tl (tl (tl c))";
        cases "tl (tl (tl (tl c)))") auto
  have k: "unat b0 = 22 \<or> unat b0 = 23 \<or> unat b0 = 20 \<or> unat b0 = 128 \<or>
           (unat b0 \<noteq> 22 \<and> unat b0 \<noteq> 23 \<and> unat b0 \<noteq> 20 \<and> unat b0 \<noteq> 128)"
    by blast
  show ?thesis
  proof (cases "state cfg = STATE_START")
    case True
    from k True show ?thesis
      unfolding c start_packet_def
      by (elim disjE conjE; simp add: rd_def rd16_def Let_def protocol_defs)
  next
    case False
    from k False show ?thesis
      unfolding c start_packet_def
      by (elim disjE conjE; simp add: rd_def rd16_def Let_def protocol_defs)
  qed
qed


lemma start_packet_buffering_ok:
  assumes "start_packet malloc_ok cfg inputbuf = Inr (Buffering cfg1 inputbuf1)"
  shows "buffering_ok cfg1"
  using start_packet_Buffering [OF assms]
  by (simp add: buffering_ok_iff malloc_block_def)

lemma bindF_Inr_id [simp]: "bindF r Inr = r"
  by (cases r) simp_all

lemma filter_chunk_Nil:
  "sslhaf_in_filter malloc_ok cfg (Brigade [Data []]) = Inr cfg"
  by (simp add: filter_chunk settle_def)

lemma feed_chunks_header:
  assumes s: "state cfg = STATE_START" and l: "5 \<le> length c"
  shows "feed_chunks malloc_ok cfg (c # cs) =
         sslhaf_in_filter malloc_ok cfg (Brigade [Data (c @ concat cs)])"
proof -
  from l have ne: "c \<noteq> []" "c @ concat cs \<noteq> []"
    by auto
  let ?K = "\<lambda>r. case r of Returned rc cfg' \<Rightarrow> Inr (rc, cfg')
                 | Buffering cfg1 inputbuf1 \<Rightarrow> buffer_step cfg1 inputbuf1"
  have one: "sslhaf_in_filter malloc_ok cfg (Brigade [Data c]) =
             bindF (bindF (start_packet malloc_ok cfg c) ?K) settle"
    using s ne by (simp add: filter_chunk decode_bucket_START)
  have whole: "sslhaf_in_filter malloc_ok cfg (Brigade [Data (c @ concat cs)]) =
               bindF (bindF (start_packet malloc_ok cfg (c @ concat cs)) ?K) settle"
    using s ne by (simp add: filter_chunk decode_bucket_START del: append_is_Nil_conv)
  show ?thesis
  proof (cases "start_packet malloc_ok cfg c")
    case (Inl e)
    then show ?thesis
      by (simp add: feed_chunks_Cons one whole start_packet_append [OF l])
  next
    case (Inr r)
    show ?thesis
    proof (cases r)
      case (Returned rc c')
      with Inr have "rc = - 1"
        by (simp add: start_packet_Returned)
      with Inr Returned show ?thesis
        by (simp add: feed_chunks_Cons one whole start_packet_append [OF l] settle_def
            feed_chunks_GOAWAY)
    next
      case (Buffering cfg1 inputbuf1)
      with Inr have ok: "buffering_ok cfg1"
        by (simp add: start_packet_buffering_ok)
      have "feed_chunks malloc_ok cfg (c # cs) =
            bindF (bindF (buffer_step cfg1 inputbuf1) settle) (\<lambda>cfg'. feed_chunks malloc_ok cfg' cs)"
        using Inr Buffering by (simp add: feed_chunks_Cons one)
      also have "\<dots> = bindF (bindF (buffer_step cfg1 inputbuf1) settle)
                         (\<lambda>cfg'. sslhaf_in_filter malloc_ok cfg' (Brigade [Data (concat cs)]))"
        by (rule bindF_cong [OF refl]) (rule feed_chunks_buffering, rule buffer_step_closed [OF ok])
      also have "\<dots> = bindF (buffer_step cfg1 (inputbuf1 @ concat cs)) settle"
        by (rule buffer_step_merge [OF ok])
      also have "\<dots> = sslhaf_in_filter malloc_ok cfg (Brigade [Data (c @ concat cs)])"
        using Inr Buffering by (simp add: whole start_packet_append [OF l])
      finally show ?thesis .
    qed
  qed
qed

lemma filter_whole_record:
  assumes "state cfg = STATE_START" and "inputbuf \<noteq> []"
    and "start_packet malloc_ok cfg inputbuf = Inr (Buffering cfg1 body)"
    and "buf_to_go cfg1 = length body"
  shows "sslhaf_in_filter malloc_ok cfg (Brigade [Data inputbuf]) =
         bindF (complete_packet (cfg1\<lparr>buf := Some body, buf_len := length body, buf_to_go := 0\<rparr>))
           settle"
proof -
  from start_packet_Buffering [OF assms(3)] assms(4)
  have b: "buf cfg1 = Some (malloc_block (length body))" "buf_len cfg1 = 0"
    by simp_all
  have "buffer_step cfg1 body =
        complete_packet (cfg1\<lparr>buf := Some body, buf_len := length body, buf_to_go := 0\<rparr>)"
    using assms(4) b by (simp add: buffer_step_def memcpy_def malloc_block_def)
  with assms(1-3) show ?thesis
    by (simp add: filter_chunk decode_bucket_START)
qed

text \<open>The TLS hello, run once through the decoder and through the filter.\<close>

lemma hello_v3_decode: "decode_packet_v3_handshake hello_v3_buffered = Inr (1, hello_v3_decoded)"
  by (simp add: run_defs hello_v3_buffered_def hello_v3_decoded_def hello_v3_def)

lemma length_hello_v3: "length hello_v3 = 66"
  by (simp add: hello_v3_def)

lemma hello_v3_start:
  "start_packet (\<lambda>n. True) sslhaf_pre_conn hello_v3 =
     Inr (Buffering
           (sslhaf_pre_conn\<lparr>buf_protocol := 22, hello_version := 3, protocol_high := 3,
              protocol_low := 1, buf := Some (malloc_block 61), state := STATE_BUFFER,
              buf_len := 0, buf_to_go := 61\<rparr>)
           (drop 5 hello_v3))"
  by (simp add: hello_v3_def start_packet_def rd_def rd16_def protocol_defs BUF_LIMIT_def
      sslhaf_pre_conn_def Let_def)

lemma hello_v3_filter:
  "sslhaf_in_filter (\<lambda>n. True) sslhaf_pre_conn (Brigade [Data hello_v3]) =
     Inr (hello_v3_decoded\<lparr>buf := None, state := STATE_GOAWAY\<rparr>)"
proof -
  have ne: "hello_v3 \<noteq> []" and s: "state sslhaf_pre_conn = STATE_START"
    by (simp_all add: hello_v3_def sslhaf_pre_conn_def)
  have e: "sslhaf_pre_conn\<lparr>buf_protocol := 22, hello_version := 3, protocol_high := 3,
              protocol_low := 1, buf := Some (malloc_block 61), state := STATE_BUFFER,
              buf_len := 0, buf_to_go := 61, buf := Some (drop 5 hello_v3),
              buf_len := length (drop 5 hello_v3), buf_to_go := 0\<rparr> = hello_v3_buffered"
    by (simp add: hello_v3_buffered_def length_hello_v3)
  have c: "complete_packet hello_v3_buffered = Inr (1, hello_v3_decoded\<lparr>buf := None, state := STATE_GOAWAY\<rparr>)"
    by (simp add: complete_packet_def decode_packet_v3_def hello_v3_decode protocol_defs
        hello_v3_buffered_def [THEN arg_cong, of hello_version] hello_v3_buffered_def [THEN arg_cong, of buf_protocol])
  have l: "buf_to_go (sslhaf_pre_conn\<lparr>buf_protocol := 22, hello_version := 3, protocol_high := 3,
              protocol_low := 1, buf := Some (malloc_block 61), state := STATE_BUFFER,
              buf_len := 0, buf_to_go := 61\<rparr>) = length (drop 5 hello_v3)"
    by (simp add: length_hello_v3)
  have "sslhaf_in_filter (\<lambda>n. True) sslhaf_pre_conn (Brigade [Data hello_v3]) =
        bindF (complete_packet
          (sslhaf_pre_conn\<lparr>buf_protocol := 22, hello_version := 3, protocol_high := 3,
              protocol_low := 1, buf := Some (malloc_block 61), state := STATE_BUFFER,
              buf_len := 0, buf_to_go := 61, buf := Some (drop 5 hello_v3),
              buf_len := length (drop 5 hello_v3), buf_to_go := 0\<rparr>)) settle"
    by (rule filter_whole_record [OF s ne hello_v3_start l])
  also have "\<dots> = bindF (complete_packet hello_v3_buffered) settle"
    by (simp only: e)
  also have "\<dots> = Inr (hello_v3_decoded\<lparr>buf := None, state := STATE_GOAWAY\<rparr>)"
    by (simp add: c settle_def)
  finally show ?thesis .
qed


lemma concat_singletons: "concat (map (\<lambda>b. [b]) xs) = xs"
  by (induction xs) simp_all

lemma google_filter:
  "sslhaf_in_filter (\<lambda>n. True) sslhaf_pre_conn (Brigade [Data google_record]) = Inr google_parsed"
  by (simp add: run_defs google_record_def google_parsed_def)

lemmas normalize_defs = normalize_list_def normalize_ec_point_def strcpy100_def strcat100_def
  strtok_def chop_last_def str_to_dec_def grease_table_def fmt_d.simps

text \<open>
  On a fully buffered record the handshake decoder reads outside the buffer nowhere but
  in the extension loop: every earlier read is covered by a comparison with what is left
  of the message.
\<close>

lemma v3_suites_loop_in_range:
  "p + 2 * n \<le> length b \<Longrightarrow> \<exists>q'. v3_suites_loop b p n q = Inr q'"
proof (induction n arbitrary: p q)
  case 0
  then show ?case by (simp add: v3_suites_loop.simps)
next
  case (Suc n)
  then have "p + 2 + 2 * n \<le> length b" by simp
  from Suc.IH [OF this] Suc.prems show ?case
    by (subst v3_suites_loop.simps) (simp add: Let_def)
qed

lemma compression_loop_in_range:
  "p + n \<le> length b \<Longrightarrow> \<exists>q'. compression_loop b p n q = Inr q'"
proof (induction n arbitrary: p q)
  case 0
  then show ?case by (simp add: compression_loop.simps)
next
  case (Suc n)
  then have "p + 1 + n \<le> length b" by simp
  from Suc.IH [OF this] Suc.prems show ?case
    by (subst compression_loop.simps) simp
qed

lemma rd16_in_range: "p + 2 \<le> length b \<Longrightarrow> rd16 b p = Inr (unat (b ! p) * 256 + unat (b ! (p + 1)))"
  by (simp add: rd16_def)

lemma v3_extensions_fault:
  "p + mylen \<le> length b \<Longrightarrow> v3_extensions b p mylen cfg = Inl f \<Longrightarrow>
   \<exists>p elen cfg. extensions_loop b p elen [] cfg = Inl f"
  by (auto simp: v3_extensions_def rd16_in_range Let_def bindF_def split: if_splits sum.splits)

lemma v3_compression_fault:
  assumes "p + mylen \<le> length b" "v3_compression b p mylen cfg = Inl f"
  shows "\<exists>p elen cfg. extensions_loop b p elen [] cfg = Inl f"
proof -
  from assms have m: "\<not> mylen < 1"
    by (auto simp: v3_compression_def split: if_splits)
  with assms(1) have r: "rd b p = Inr (unat (b ! p))"
    by simp
  let ?clen = "unat (b ! p)"
  from assms m r have c: "\<not> mylen - 1 < ?clen"
    by (auto simp: v3_compression_def Let_def)
  with assms(1) m have "p + 1 + ?clen \<le> length b"
    by simp
  from compression_loop_in_range [OF this] obtain cm where
    cm: "compression_loop b (p + 1) ?clen [] = Inr cm"
    by blast
  from assms(2) m r c cm have
    "v3_extensions b (p + 1 + ?clen) (mylen - 1 - ?clen)
       (cfg\<lparr>compression_len := int ?clen, compression_methods := Some cm\<rparr>) = Inl f"
    by (auto simp: v3_compression_def Let_def split: if_splits)
  moreover from assms(1) m c have "(p + 1 + ?clen) + (mylen - 1 - ?clen) \<le> length b"
    by simp
  ultimately show ?thesis
    by (rule v3_extensions_fault [rotated])
qed

lemma v3_cipher_suites_fault:
  assumes "p + mylen \<le> length b" "v3_cipher_suites b p mylen cfg = Inl f"
  shows "\<exists>p elen cfg. extensions_loop b p elen [] cfg = Inl f"
proof -
  from assms have m: "\<not> mylen < 2"
    by (auto simp: v3_cipher_suites_def split: if_splits)
  with assms(1) have r: "rd16 b p = Inr (unat (b ! p) * 256 + unat (b ! (p + 1)))"
    by (simp add: rd16_in_range)
  let ?cslen = "(unat (b ! p) * 256 + unat (b ! (p + 1))) div 2"
  from assms m r have c: "\<not> mylen - 2 < ?cslen * 2"
    by (auto simp: v3_cipher_suites_def Let_def)
  with assms(1) m have "p + 2 + 2 * ?cslen \<le> length b"
    by simp
  from v3_suites_loop_in_range [OF this] obtain ts where
    ts: "v3_suites_loop b (p + 2) ?cslen [] = Inr ts"
    by blast
  from assms(2) m r c ts obtain cfg2 where
    "v3_compression b (p + 2 + 2 * ?cslen) (mylen - 2 - ?cslen * 2) cfg2 = Inl f"
    by (auto simp: v3_cipher_suites_def Let_def split: if_splits)
  moreover from assms(1) m c have "(p + 2 + 2 * ?cslen) + (mylen - 2 - ?cslen * 2) \<le> length b"
    by simp
  ultimately show ?thesis
    by (rule v3_compression_fault [rotated])
qed

lemma v3_client_hello_fault:
  assumes "4 + ml \<le> length b" "v3_client_hello b ml cfg = Inl f"
  shows "\<exists>p elen cfg. extensions_loop b p elen [] cfg = Inl f"
proof -
  from assms have m: "\<not> ml < 34"
    by (auto simp: v3_client_hello_def split: if_splits)
  with assms(1) have r: "rd b 4 = Inr (unat (b ! 4))" "rd b 5 = Inr (unat (b ! 5))"
    by simp_all
  from assms m r have m1: "\<not> ml - 34 < 1"
    by (auto simp: v3_client_hello_def Let_def)
  with assms(1) m have r38: "rd b 38 = Inr (unat (b ! 38))"
    by simp
  let ?idlen = "unat (b ! 38)"
  from assms m r m1 r38 have i: "\<not> ml - 34 - 1 < ?idlen"
    by (auto simp: v3_client_hello_def Let_def)
  from assms(2) m r m1 r38 i obtain cfg1 where
    "v3_cipher_suites b (39 + ?idlen) (ml - 34 - 1 - ?idlen) cfg1 = Inl f"
    by (auto simp: v3_client_hello_def Let_def split: if_splits)
  moreover from assms(1) m m1 i have "(39 + ?idlen) + (ml - 34 - 1 - ?idlen) \<le> length b"
    by simp
  ultimately show ?thesis
    by (rule v3_cipher_suites_fault [rotated])
qed

lemma decode_packet_v3_handshake_fault:
  assumes "buf cfg = Some b" "buf_len cfg = length b" "decode_packet_v3_handshake cfg = Inl f"
  shows "\<exists>p elen cfg. extensions_loop b p elen [] cfg = Inl f"
proof -
  from assms have l: "\<not> length b < 4"
    by (auto simp: decode_packet_v3_handshake_def Let_def split: if_splits)
  then have "b \<noteq> []"
    by auto
  with l have r: "rd b 0 = Inr (unat (b ! 0))" "rd b 1 = Inr (unat (b ! 1))"
    "rd b 2 = Inr (unat (b ! 2))" "rd b 3 = Inr (unat (b ! 3))"
    by simp_all
  let ?ml = "unat (b ! 1) * 65536 + unat (b ! 2) * 256 + unat (b ! 3)"
  from assms l r have t: "unat (b ! 0) = 1" and fit: "\<not> ?ml > length b - 4"
    by (auto simp: decode_packet_v3_handshake_def Let_def split: if_splits)
  have hex: "\<And>q. hex_loop b 0 (length b) q = Inr (q @ concat (map (\<lambda>x. c2x (unat x)) b))"
    using hex_loop_in_range [of 0 "length b" b] by simp
  from assms l r t fit obtain cfg1 where "v3_client_hello b ?ml cfg1 = Inl f"
    by (auto simp: decode_packet_v3_handshake_def Let_def hex split: if_splits)
  moreover from l fit have "4 + ?ml \<le> length b"
    by simp
  ultimately show ?thesis
    by (rule v3_client_hello_fault [rotated])
qed

text \<open>
  Within its two blocks of 100 bytes, and when one token at least is kept, the
  normalizer of the code gives the list that the specification describes.
\<close>

lemma str_to_dec_loop_hex_value:
  "\<forall>c \<in> set s. hex_digit c \<Longrightarrow> str_to_dec_loop s cur res = res + hex_value s"
  by (induction s arbitrary: cur res) (auto simp: Let_def hex_digit_def hex_digit_value_def)

lemma hyphen_join_Cons: "hyphen_join (t # ts) = t @ concat (map (\<lambda>t. ''-'' @ t) ts)"
  by (induction ts arbitrary: t) simp_all

lemma chop_last_hyphens:
  "ts \<noteq> [] \<Longrightarrow> chop_last (concat (map (\<lambda>t. t @ ''-'') ts)) = Inr (hyphen_join ts)"
proof (induction ts rule: hyphen_join.induct)
  case 1
  then show ?case by simp
next
  case (2 t)
  then show ?case by (simp add: chop_last_def)
next
  case (3 t v va)
  then have "chop_last (concat (map (\<lambda>t. t @ ''-'') (v # va))) = Inr (hyphen_join (v # va))"
    by simp
  then have "butlast (concat (map (\<lambda>t. t @ ''-'') (v # va))) = hyphen_join (v # va)"
    by (simp add: chop_last_def split: if_splits)
  then show ?case
    by (simp add: chop_last_def butlast_append)
qed

lemma tokens_loop_within_bounds:
  assumes "\<forall>t \<in> set ts. t \<notin> set grease_table \<longrightarrow>
             (\<forall>c \<in> set t. hex_digit c) \<and> length (fmt_d (hex_value t)) \<le> 8"
    and "length out +
         length (concat (map (\<lambda>t. fmt_d (hex_value t) @ ''-'')
                   (filter (\<lambda>t. t \<notin> set grease_table) ts))) < 100"
  shows "tokens_loop ts out =
           Inr (out @ concat (map (\<lambda>t. fmt_d (hex_value t) @ ''-'')
                  (filter (\<lambda>t. t \<notin> set grease_table) ts)))"
  using assms
proof (induction ts arbitrary: out)
  case Nil
  then show ?case by simp
next
  case (Cons t ts)
  show ?case
  proof (cases "t \<in> set grease_table")
    case True
    with Cons show ?thesis by simp
  next
    case False
    with Cons.prems(1) have h: "\<forall>c \<in> set t. hex_digit c" and l: "length (fmt_d (hex_value t)) \<le> 8"
      by simp_all
    from h have v: "str_to_dec_loop t 0 0 = hex_value t"
      by (simp add: str_to_dec_loop_hex_value)
    from l have d: "str_to_dec t = Inr (fmt_d (hex_value t) @ ''-'')"
      by (simp add: str_to_dec_def v Let_def)
    from Cons.prems(2) False have
      c: "strcat100 out (fmt_d (hex_value t) @ ''-'') = Inr (out @ fmt_d (hex_value t) @ ''-'')"
      by (simp add: strcat100_def)
    from Cons.prems False have
      "tokens_loop ts (out @ fmt_d (hex_value t) @ ''-'') =
         Inr ((out @ fmt_d (hex_value t) @ ''-'') @
              concat (map (\<lambda>t. fmt_d (hex_value t) @ ''-'')
                (filter (\<lambda>t. t \<notin> set grease_table) ts)))"
      by (intro Cons.IH) simp_all
    with False d c show ?thesis
      by simp
  qed
qed

lemma normalize_list_within_bounds:
  assumes "length s < 100"
    and "kept = filter (\<lambda>t. t \<notin> set grease_table) (strtok s)"
    and "kept \<noteq> []"
    and "\<forall>t \<in> set kept. (\<forall>c \<in> set t. hex_digit c) \<and> length (fmt_d (hex_value t)) \<le> 8"
    and "length (concat (map (\<lambda>t. fmt_d (hex_value t) @ ''-'') kept)) < 100"
  shows "normalize_list (Some s) = Inr (spec_normalize s)"
proof -
  have "tokens_loop (strtok s) [] =
          Inr ([] @ concat (map (\<lambda>t. fmt_d (hex_value t) @ ''-'')
                 (filter (\<lambda>t. t \<notin> set grease_table) (strtok s))))"
    using assms(2,4,5) by (intro tokens_loop_within_bounds) auto
  then have t: "tokens_loop (strtok s) [] =
                  Inr (concat (map (\<lambda>t. t @ ''-'') (map (\<lambda>t. fmt_d (hex_value t)) kept)))"
    by (simp add: assms(2) comp_def)
  from assms(3) have "map (\<lambda>t. fmt_d (hex_value t)) kept \<noteq> []"
    by simp
  from chop_last_hyphens [OF this] t assms(1) show ?thesis
    by (simp add: normalize_list_def strcpy100_def spec_normalize_def assms(2))
qed

lemma start_packet_Buffering_length:
  assumes "start_packet malloc_ok cfg inputbuf = Inr (Buffering c unread)"
  shows "5 \<le> length inputbuf" "unread = drop 5 inputbuf"
  using assms
  by (auto simp: start_packet_def bindF_def Let_def rd_def split: sum.splits if_splits)

lemma list_five:
  assumes "5 \<le> length xs"
  obtains a b c d e t where "xs = a # b # c # d # e # t"
proof -
  from assms obtain a t1 where 1: "xs = a # t1" "4 \<le> length t1" by (cases xs) auto
  then obtain b t2 where 2: "t1 = b # t2" "3 \<le> length t2" by (cases t1) auto
  then obtain c t3 where 3: "t2 = c # t3" "2 \<le> length t3" by (cases t2) auto
  then obtain d t4 where 4: "t3 = d # t4" "1 \<le> length t4" by (cases t3) auto
  then obtain e t where 5: "t4 = e # t" by (cases t4) auto
  from 1 2 3 4 5 that show ?thesis by blast
qed

lemma start_packet_accepts:
  assumes s: "state cfg = STATE_START"
    and b: "start_packet malloc_ok cfg inputbuf = Inr (Buffering c unread)"
  shows "\<exists>b0 x1 x2 x3 x4. inputbuf = b0 # x1 # x2 # x3 # x4 # unread \<and>
      (unat b0 = 22 \<and> 0 < unat x3 * 256 + unat x4 \<and> unat x3 * 256 + unat x4 \<le> 16384 \<and>
         malloc_ok (unat x3 * 256 + unat x4) \<and> hello_version c = 3 \<and>
         buf_to_go c = unat x3 * 256 + unat x4 \<or>
       unat b0 = 128 \<and> unat x2 = 1 \<and> 3 < unat x1 \<and> malloc_ok (unat x1 - 3) \<and>
         hello_version c = 2 \<and> buf_to_go c = unat x1 - 3)"
proof -
  from start_packet_Buffering_length [OF b] have l: "5 \<le> length inputbuf" and u: "unread = drop 5 inputbuf" .
  from l obtain b0 x1 x2 x3 x4 t where i: "inputbuf = b0 # x1 # x2 # x3 # x4 # t"
    by (rule list_five)
  with u have t: "t = unread" by simp
  consider "unat b0 = 22" | "unat b0 = 128" | "unat b0 \<noteq> 22 \<and> unat b0 \<noteq> 128" by blast
  then have "unat b0 = 22 \<and> 0 < unat x3 * 256 + unat x4 \<and> unat x3 * 256 + unat x4 \<le> 16384 \<and>
         malloc_ok (unat x3 * 256 + unat x4) \<and> hello_version c = 3 \<and>
         buf_to_go c = unat x3 * 256 + unat x4 \<or>
       unat b0 = 128 \<and> unat x2 = 1 \<and> 3 < unat x1 \<and> malloc_ok (unat x1 - 3) \<and>
         hello_version c = 2 \<and> buf_to_go c = unat x1 - 3"
  proof cases
    case 1
    with b s show ?thesis unfolding i start_packet_def
      by (auto simp: rd_def rd16_def Let_def protocol_defs BUF_LIMIT_def split: if_splits)
  next
    case 2
    have lt: "unat x1 < 256" by (rule unat_byte_lt)
    show ?thesis
    proof (cases "3 < unat x1")
      case True
      then have "size_t_of_int (int (unat x1) - 3) = unat x1 - 3"
        using lt by (intro size_t_big) simp_all
      then have eq: "size_t_of_int (uint x1 - 3) = unat x1 - 3"
        by simp
      from b s 2 True show ?thesis unfolding i start_packet_def
        by (auto simp: rd_def Let_def protocol_defs BUF_LIMIT_def eq split: if_splits)
    next
      case False
      then consider "unat x1 = 3" | "unat x1 < 3" by linarith
      then have "size_t_of_int (int (unat x1) - 3) = 0 \<or> BUF_LIMIT < size_t_of_int (int (unat x1) - 3)"
      proof cases
        case 1 then show ?thesis by (simp add: size_t_of_int_def)
      next
        case 2 then show ?thesis using size_t_small [of "unat x1"] by simp
      qed
      then have "size_t_of_int (uint x1 - 3) = 0 \<or> BUF_LIMIT < size_t_of_int (uint x1 - 3)"
        by simp
      with b s 2 show ?thesis unfolding i start_packet_def
        by (auto simp: rd_def Let_def protocol_defs split: if_splits)
    qed
  next
    case 3
    with b s show ?thesis unfolding i start_packet_def
      by (simp add: rd_def protocol_defs)
  qed
  with i t show ?thesis by blast
qed

section \<open>The record length\<close>

text \<open>
  Claim C7. For every fresh record header the declared record length \<open>len\<close> is accepted
  only if \<open>0 < len\<close> and \<open>len \<le> 16384\<close>: whenever the header step goes on to
  buffering, the length to buffer lies in that range and the block allocated has exactly
  that size. A handshake record that declares the length 0 or a length above 16384
  (16385 for one) is rejected with the code -1 before \<open>malloc\<close> is reached, whatever
  \<open>malloc\<close> would have answered: the buffer pointer and the buffered length are what
  they were, and the filter moves the connection to \<open>STATE_GOAWAY\<close>.
\<close>

theorem record_length_bounds:
  "(start_packet malloc_ok cfg inputbuf = Inr (Buffering cfg1 rest) \<longrightarrow>
      0 < buf_to_go cfg1 \<and> buf_to_go cfg1 \<le> 16384 \<and>
      buf cfg1 = Some (malloc_block (buf_to_go cfg1))) \<and>
   (state cfg = STATE_START \<and>
    (unat l0 * 256 + unat l1 = 0 \<or> 16384 < unat l0 * 256 + unat l1) \<longrightarrow>
      start_packet malloc_ok cfg (22 # v0 # v1 # l0 # l1 # tail) =
        Inr (Returned (- 1) (v3_header_cfg cfg v0 v1)) \<and>
      decode_bucket malloc_ok cfg (22 # v0 # v1 # l0 # l1 # tail) =
        Inr (- 1, v3_header_cfg cfg v0 v1) \<and>
      sslhaf_in_filter malloc_ok cfg (Brigade [Data (22 # v0 # v1 # l0 # l1 # tail)]) =
        Inr ((v3_header_cfg cfg v0 v1)\<lparr>state := STATE_GOAWAY\<rparr>) \<and>
      buf (v3_header_cfg cfg v0 v1) = buf cfg \<and> buf_len (v3_header_cfg cfg v0 v1) = buf_len cfg)"
proof (intro conjI impI)
  assume "start_packet malloc_ok cfg inputbuf = Inr (Buffering cfg1 rest)"
  from start_packet_Buffering [OF this]
  show "0 < buf_to_go cfg1" "buf_to_go cfg1 \<le> 16384" "buf cfg1 = Some (malloc_block (buf_to_go cfg1))"
    by (simp_all add: BUF_LIMIT_def)
next
  let ?inp = "22 # v0 # v1 # l0 # l1 # tail"
  let ?hdr = "v3_header_cfg cfg v0 v1"
  assume a: "state cfg = STATE_START \<and> (unat l0 * 256 + unat l1 = 0 \<or> 16384 < unat l0 * 256 + unat l1)"
  then show sp: "start_packet malloc_ok cfg ?inp = Inr (Returned (- 1) ?hdr)"
    by (auto simp: start_packet_def rd_def rd16_def protocol_defs BUF_LIMIT_def Let_def v3_header_cfg_def)
  with a show db: "decode_bucket malloc_ok cfg ?inp = Inr (- 1, ?hdr)"
    by (intro decode_bucket_start_Returned) simp_all
  with a show "sslhaf_in_filter malloc_ok cfg (Brigade [Data ?inp]) = Inr (?hdr\<lparr>state := STATE_GOAWAY\<rparr>)"
    by (simp add: sslhaf_in_filter_def)
  show "buf ?hdr = buf cfg" "buf_len ?hdr = buf_len cfg"
    by (simp_all add: v3_header_cfg_def)
qed

theorem record_length_bounds_witness:
  "start_packet (\<lambda>n. True) sslhaf_pre_conn [22, 3, 1, 0x40, 0x00, 1] =
     Inr (Buffering
           (sslhaf_pre_conn\<lparr>buf_protocol := 22, hello_version := 3, protocol_high := 3,
              protocol_low := 1, buf := Some (malloc_block 16384), state := STATE_BUFFER,
              buf_len := 0, buf_to_go := 16384\<rparr>) [1]) \<and>
   state sslhaf_pre_conn = STATE_START \<and>
   16384 < unat (0x40 :: byte) * 256 + unat (0x01 :: byte) \<and>
   sslhaf_in_filter (\<lambda>n. True) sslhaf_pre_conn (Brigade [Data [22, 3, 1, 0x40, 0x01, 1]]) =
     Inr ((v3_header_cfg sslhaf_pre_conn 3 1)\<lparr>state := STATE_GOAWAY\<rparr>) \<and>
   buf (v3_header_cfg sslhaf_pre_conn 3 1) = None \<and>
   unat (0 :: byte) * 256 + unat (0 :: byte) = 0 \<and>
   sslhaf_in_filter (\<lambda>n. True) sslhaf_pre_conn (Brigade [Data [22, 3, 1, 0, 0, 1]]) =
     Inr ((v3_header_cfg sslhaf_pre_conn 3 1)\<lparr>state := STATE_GOAWAY\<rparr>)"
proof -
  let ?c = "sslhaf_pre_conn\<lparr>buf_protocol := 22, hello_version := 3, protocol_high := 3,
              protocol_low := 1, buf := Some (malloc_block 16384), state := STATE_BUFFER,
              buf_len := 0, buf_to_go := 16384\<rparr>"
  have h: "start_packet (\<lambda>n. True) sslhaf_pre_conn [22, 3, 1, 0x40, 0x00, 1] = Inr (Buffering ?c [1])"
    by (simp add: start_packet_def rd_def rd16_def protocol_defs BUF_LIMIT_def
        sslhaf_pre_conn_def Let_def)
  have s: "state sslhaf_pre_conn = STATE_START" and n: "buf sslhaf_pre_conn = None"
    by (simp_all add: sslhaf_pre_conn_def)
  have big: "16384 < unat (0x40 :: byte) * 256 + unat (0x01 :: byte)"
    and zero: "unat (0 :: byte) * 256 + unat (0 :: byte) = 0"
    by simp_all
  from record_length_bounds [of "\<lambda>n. True" sslhaf_pre_conn _ _ _ "0x40" "0x01" 3 1 "[1]"] s big
  have a: "sslhaf_in_filter (\<lambda>n. True) sslhaf_pre_conn (Brigade [Data [22, 3, 1, 0x40, 0x01, 1]]) =
     Inr ((v3_header_cfg sslhaf_pre_conn 3 1)\<lparr>state := STATE_GOAWAY\<rparr>)"
    "buf (v3_header_cfg sslhaf_pre_conn 3 1) = buf sslhaf_pre_conn"
    by blast+
  from record_length_bounds [of "\<lambda>n. True" sslhaf_pre_conn _ _ _ 0 0 3 1 "[1]"] s zero
  have b: "sslhaf_in_filter (\<lambda>n. True) sslhaf_pre_conn (Brigade [Data [22, 3, 1, 0, 0, 1]]) =
     Inr ((v3_header_cfg sslhaf_pre_conn 3 1)\<lparr>state := STATE_GOAWAY\<rparr>)"
    by blast
  from record_length_bounds [of "\<lambda>n. True" sslhaf_pre_conn "[22, 3, 1, 0x40, 0x00, 1]" ?c "[1]"] h
  have c: "0 < buf_to_go ?c \<and> buf_to_go ?c \<le> 16384"
    by blast
  from h s big a b n zero show ?thesis
    by simp
qed

text \<open>
  Claim C10. On the SSLv2 path the length to buffer is the byte after the marker 0x80
  minus 3, so it lies between 1 and 252 and below the limit of 16384. A length byte of at
  most 3 is always rejected: below 3 the unsigned subtraction wraps past the limit, and 3
  gives the length zero.
\<close>

theorem sslv2_record_length:
  "(start_packet malloc_ok cfg (128 # l0 # rest) = Inr (Buffering cfg1 rest') \<longrightarrow>
      3 < unat l0 \<and> buf_to_go cfg1 = unat l0 - 3 \<and> 1 \<le> buf_to_go cfg1 \<and> buf_to_go cfg1 \<le> 252 \<and>
      buf_to_go cfg1 < BUF_LIMIT \<and> buf cfg1 = Some (malloc_block (unat l0 - 3)) \<and> buf_len cfg1 = 0) \<and>
   (unat l0 < 3 \<longrightarrow> BUF_LIMIT < size_t_of_int (int (unat l0) - 3)) \<and>
   (unat l0 = 3 \<longrightarrow> size_t_of_int (int (unat l0) - 3) = 0) \<and>
   (unat l0 \<le> 3 \<longrightarrow> (\<exists>c. start_packet malloc_ok cfg (128 # l0 # rest) = Inr (Returned (- 1) c)))"
proof (intro conjI impI)
  assume a: "start_packet malloc_ok cfg (128 # l0 # rest) = Inr (Buffering cfg1 rest')"
  have lt: "unat l0 < 256" by (rule unat_byte_lt)
  have big: "3 < unat l0"
  proof (rule ccontr)
    assume "\<not> 3 < unat l0"
    then consider "unat l0 < 3" | "unat l0 = 3" by linarith
    then show False
    proof cases
      case 1
      from size_t_small [OF 1] a show False
        by (auto simp: start_packet_def rd_def PROTOCOL_HANDSHAKE_def PROTOCOL_APPLICATION_def
            PROTOCOL_CHANGE_CIPHER_SPEC_def Let_def split: if_splits)
    next
      case 2
      then have "size_t_of_int (int (unat l0) - 3) = 0" by (simp add: size_t_of_int_def)
      with a show False
        by (auto simp: start_packet_def rd_def PROTOCOL_HANDSHAKE_def PROTOCOL_APPLICATION_def
            PROTOCOL_CHANGE_CIPHER_SPEC_def Let_def split: if_splits)
    qed
  qed
  then have eq: "size_t_of_int (int (unat l0) - 3) = unat l0 - 3"
    using lt by (intro size_t_big) simp_all
  from a eq show "3 < unat l0" "buf_to_go cfg1 = unat l0 - 3" "buf cfg1 = Some (malloc_block (unat l0 - 3))" "buf_len cfg1 = 0"
    using big
    by (auto simp: start_packet_def rd_def PROTOCOL_HANDSHAKE_def PROTOCOL_APPLICATION_def
            PROTOCOL_CHANGE_CIPHER_SPEC_def Let_def split: if_splits)
  then show "1 \<le> buf_to_go cfg1" "buf_to_go cfg1 \<le> 252" "buf_to_go cfg1 < BUF_LIMIT"
    using lt by (simp_all add: BUF_LIMIT_def)
next
  assume "unat l0 < 3"
  then show "BUF_LIMIT < size_t_of_int (int (unat l0) - 3)" by (rule size_t_small)
next
  assume "unat l0 = 3"
  then show "size_t_of_int (int (unat l0) - 3) = 0" by (simp add: size_t_of_int_def)
next
  assume le: "unat l0 \<le> 3"
  then consider "unat l0 < 3" | "unat l0 = 3" by linarith
  then have "size_t_of_int (int (unat l0) - 3) \<le> 0 \<or> BUF_LIMIT < size_t_of_int (int (unat l0) - 3)"
  proof cases
    case 1 then show ?thesis using size_t_small by blast
  next
    case 2 then show ?thesis by (simp add: size_t_of_int_def)
  qed
  then show "\<exists>c. start_packet malloc_ok cfg (128 # l0 # rest) = Inr (Returned (- 1) c)"
    by (auto simp: start_packet_def rd_def PROTOCOL_HANDSHAKE_def PROTOCOL_APPLICATION_def
            PROTOCOL_CHANGE_CIPHER_SPEC_def Let_def bindF_def split: if_splits sum.splits)
qed

theorem sslv2_record_length_witness:
  "start_packet (\<lambda>n. True) sslhaf_pre_conn (128 # 37 # [1, 3, 1]) =
     Inr (Buffering
           (sslhaf_pre_conn\<lparr>hello_version := 2, protocol_high := 3, protocol_low := 1,
              buf := Some (malloc_block 34), state := STATE_BUFFER, buf_len := 0, buf_to_go := 34\<rparr>) []) \<and>
   buf_to_go (sslhaf_pre_conn\<lparr>hello_version := 2, protocol_high := 3, protocol_low := 1,
              buf := Some (malloc_block 34), state := STATE_BUFFER, buf_len := 0, buf_to_go := 34\<rparr>)
     = unat (37 :: byte) - 3 \<and>
   unat (2 :: byte) < 3 \<and> BUF_LIMIT < size_t_of_int (int (unat (2 :: byte)) - 3) \<and>
   unat (3 :: byte) = 3 \<and> size_t_of_int (int (unat (3 :: byte)) - 3) = 0 \<and>
   (\<exists>c. start_packet (\<lambda>n. True) sslhaf_pre_conn (128 # 3 # [1, 3, 1]) = Inr (Returned (- 1) c))"
proof -
  let ?c = "sslhaf_pre_conn\<lparr>hello_version := 2, protocol_high := 3, protocol_low := 1,
              buf := Some (malloc_block 34), state := STATE_BUFFER, buf_len := 0, buf_to_go := 34\<rparr>"
  have h: "start_packet (\<lambda>n. True) sslhaf_pre_conn (128 # 37 # [1, 3, 1]) = Inr (Buffering ?c [])"
    by (simp add: start_packet_def rd_def protocol_defs size_t_of_int_def BUF_LIMIT_def
        sslhaf_pre_conn_def Let_def)
  have two: "unat (2 :: byte) < 3" and three: "unat (3 :: byte) = 3" "unat (3 :: byte) \<le> 3"
    by simp_all
  from sslv2_record_length [of "\<lambda>n. True" sslhaf_pre_conn 37 "[1, 3, 1]" ?c "[]"] h
  have a: "buf_to_go ?c = unat (37 :: byte) - 3"
    by blast
  from sslv2_record_length [of "\<lambda>n. True" sslhaf_pre_conn 2 "[1, 3, 1]" ?c "[]"] two
  have b: "BUF_LIMIT < size_t_of_int (int (unat (2 :: byte)) - 3)"
    by blast
  from sslv2_record_length [of "\<lambda>n. True" sslhaf_pre_conn 3 "[1, 3, 1]" ?c "[]"] three
  have c: "size_t_of_int (int (unat (3 :: byte)) - 3) = 0"
    "\<exists>c. start_packet (\<lambda>n. True) sslhaf_pre_conn (128 # 3 # [1, 3, 1]) = Inr (Returned (- 1) c)"
    by blast+
  from h a b c two three show ?thesis
    by blast
qed

section \<open>The first byte of a connection\<close>

text \<open>
  Claim C3, as the code has it. In \<open>STATE_START\<close> the first byte 20 or 23 is not taken
  for SSLv3+ framing: lines 744-750 return -1 for every first byte other than 22 and 128,
  before the test of lines 753-755 is reached. The first theorem shows it on a record that
  starts with 20 and on one that starts with 23, each with a whole and valid header: the
  header step returns -1 and the filter moves the fresh connection to \<open>STATE_GOAWAY\<close>
  with nothing recorded.
\<close>

theorem first_byte_20_23_counterexample:
  "start_packet (\<lambda>n. True) sslhaf_pre_conn [20, 3, 1, 0, 1, 0] = Inr (Returned (- 1) sslhaf_pre_conn) \<and>
   sslhaf_in_filter (\<lambda>n. True) sslhaf_pre_conn (Brigade [Data [20, 3, 1, 0, 1, 0]]) =
     Inr (sslhaf_pre_conn\<lparr>state := STATE_GOAWAY\<rparr>) \<and>
   start_packet (\<lambda>n. True) sslhaf_pre_conn [23, 3, 1, 0, 1, 0] = Inr (Returned (- 1) sslhaf_pre_conn) \<and>
   sslhaf_in_filter (\<lambda>n. True) sslhaf_pre_conn (Brigade [Data [23, 3, 1, 0, 1, 0]]) =
     Inr (sslhaf_pre_conn\<lparr>state := STATE_GOAWAY\<rparr>)"
proof -
  have s: "state sslhaf_pre_conn = STATE_START"
    by (simp add: sslhaf_pre_conn_def)
  have a: "start_packet (\<lambda>n. True) sslhaf_pre_conn [20, 3, 1, 0, 1, 0] = Inr (Returned (- 1) sslhaf_pre_conn)"
    using s by (simp add: start_packet_def rd_def protocol_defs)
  have b: "start_packet (\<lambda>n. True) sslhaf_pre_conn [23, 3, 1, 0, 1, 0] = Inr (Returned (- 1) sslhaf_pre_conn)"
    using s by (simp add: start_packet_def rd_def protocol_defs)
  from s a have "decode_bucket (\<lambda>n. True) sslhaf_pre_conn [20, 3, 1, 0, 1, 0] = Inr (- 1, sslhaf_pre_conn)"
    by (intro decode_bucket_start_Returned) simp_all
  moreover from s b have "decode_bucket (\<lambda>n. True) sslhaf_pre_conn [23, 3, 1, 0, 1, 0] = Inr (- 1, sslhaf_pre_conn)"
    by (intro decode_bucket_start_Returned) simp_all
  ultimately show ?thesis
    using a b s by (simp add: sslhaf_in_filter_def)
qed

text \<open>
  Claim C3, amended. In \<open>STATE_START\<close>, every first byte other than 22 and 128 (20 and 23
  among them) is rejected with -1, the configuration is untouched (no byte is buffered) and
  the filter moves the connection to \<open>STATE_GOAWAY\<close>. The first byte 22 is SSLv3+ framing
  and the first byte 128 is SSLv2 framing, and the header step goes on to buffering in
  these cases and no other: after 22, when the chunk holds the two version bytes and the
  two length bytes, and the length \<open>len\<close> has \<open>0 < len \<le> 16384\<close> and \<open>malloc\<close> grants
  it; after 128, when the chunk holds the length byte, the message type and the two
  version bytes, the message type is 1 (a ClientHello, lines 833-839), the length byte is
  above 3 and \<open>malloc\<close> grants the length less 3. After 128, a message type other than 1
  is rejected with -1 and the configuration is untouched. Every header that is not
  accepted returns -1 with no byte buffered, and the filter moves the connection to
  \<open>STATE_GOAWAY\<close>.
\<close>

theorem start_state_first_byte:
  "state cfg = STATE_START \<longrightarrow>
   (unat b0 \<noteq> 22 \<and> unat b0 \<noteq> 128 \<longrightarrow>
      start_packet malloc_ok cfg (b0 # rest) = Inr (Returned (- 1) cfg) \<and>
      decode_bucket malloc_ok cfg (b0 # rest) = Inr (- 1, cfg) \<and>
      sslhaf_in_filter malloc_ok cfg (Brigade [Data (b0 # rest)]) =
        Inr (cfg\<lparr>state := STATE_GOAWAY\<rparr>)) \<and>
   (unat b0 = 22 \<and> len = unat l0 * 256 + unat l1 \<and> 0 < len \<and> len \<le> 16384 \<and> malloc_ok len \<longrightarrow>
      start_packet malloc_ok cfg (b0 # v0 # v1 # l0 # l1 # tail) =
        Inr (Buffering
              ((v3_header_cfg cfg v0 v1)\<lparr>buf := Some (malloc_block len), state := STATE_BUFFER,
                 buf_len := 0, buf_to_go := len\<rparr>) tail)) \<and>
   (unat b0 = 128 \<and> unat msg_type = 1 \<and> 3 < unat l0 \<and> malloc_ok (unat l0 - 3) \<longrightarrow>
      (\<exists>c. start_packet malloc_ok cfg (b0 # l0 # msg_type # v0 # v1 # tail) = Inr (Buffering c tail) \<and>
           hello_version c = 2 \<and> state c = STATE_BUFFER \<and> buf_len c = 0 \<and>
           buf_to_go c = unat l0 - 3 \<and> buf c = Some (malloc_block (unat l0 - 3)))) \<and>
   (unat b0 = 128 \<and> unat msg_type \<noteq> 1 \<longrightarrow>
      start_packet malloc_ok cfg (b0 # l0 # msg_type # v0 # v1 # tail) = Inr (Returned (- 1) cfg) \<and>
      sslhaf_in_filter malloc_ok cfg (Brigade [Data (b0 # l0 # msg_type # v0 # v1 # tail)]) =
        Inr (cfg\<lparr>state := STATE_GOAWAY\<rparr>)) \<and>
   (start_packet malloc_ok cfg inputbuf = Inr (Buffering c unread) \<longrightarrow>
      (\<exists>x0 x1 x2 x3 x4. inputbuf = x0 # x1 # x2 # x3 # x4 # unread \<and>
         (unat x0 = 22 \<and> 0 < unat x3 * 256 + unat x4 \<and> unat x3 * 256 + unat x4 \<le> 16384 \<and>
            malloc_ok (unat x3 * 256 + unat x4) \<and> hello_version c = 3 \<and>
            buf_to_go c = unat x3 * 256 + unat x4 \<or>
          unat x0 = 128 \<and> unat x2 = 1 \<and> 3 < unat x1 \<and> malloc_ok (unat x1 - 3) \<and>
            hello_version c = 2 \<and> buf_to_go c = unat x1 - 3))) \<and>
   (inputbuf \<noteq> [] \<and> start_packet malloc_ok cfg inputbuf = Inr (Returned rc c') \<longrightarrow>
      rc = - 1 \<and> buf_len c' = buf_len cfg \<and> buf_to_go c' = buf_to_go cfg \<and>
      (buf c' = buf cfg \<or> buf c' = None) \<and>
      sslhaf_in_filter malloc_ok cfg (Brigade [Data inputbuf]) = Inr (c'\<lparr>state := STATE_GOAWAY\<rparr>))"
proof (intro conjI impI)
  assume s: "state cfg = STATE_START" and b: "unat b0 \<noteq> 22 \<and> unat b0 \<noteq> 128"
  then show sp: "start_packet malloc_ok cfg (b0 # rest) = Inr (Returned (- 1) cfg)"
    by (simp add: start_packet_def rd_def protocol_defs)
  with s show db: "decode_bucket malloc_ok cfg (b0 # rest) = Inr (- 1, cfg)"
    by (intro decode_bucket_start_Returned) simp_all
  with s show "sslhaf_in_filter malloc_ok cfg (Brigade [Data (b0 # rest)]) = Inr (cfg\<lparr>state := STATE_GOAWAY\<rparr>)"
    by (simp add: sslhaf_in_filter_def)
next
  assume s: "state cfg = STATE_START"
    and b: "unat b0 = 22 \<and> len = unat l0 * 256 + unat l1 \<and> 0 < len \<and> len \<le> 16384 \<and> malloc_ok len"
  then show "start_packet malloc_ok cfg (b0 # v0 # v1 # l0 # l1 # tail) =
        Inr (Buffering
              ((v3_header_cfg cfg v0 v1)\<lparr>buf := Some (malloc_block len), state := STATE_BUFFER,
                 buf_len := 0, buf_to_go := len\<rparr>) tail)"
    by (auto simp: start_packet_def rd_def rd16_def protocol_defs BUF_LIMIT_def Let_def v3_header_cfg_def)
next
  assume s: "state cfg = STATE_START"
    and b: "unat b0 = 128 \<and> unat msg_type = 1 \<and> 3 < unat l0 \<and> malloc_ok (unat l0 - 3)"
  have lt: "unat l0 < 256" by (rule unat_byte_lt)
  have eq: "size_t_of_int (int (unat l0) - 3) = unat l0 - 3"
    using lt b by (intro size_t_big) simp_all
  with lt b have "0 < size_t_of_int (int (unat l0) - 3)" "size_t_of_int (int (unat l0) - 3) \<le> BUF_LIMIT"
    by (simp_all add: BUF_LIMIT_def)
  with s b eq show "\<exists>c. start_packet malloc_ok cfg (b0 # l0 # msg_type # v0 # v1 # tail) = Inr (Buffering c tail) \<and>
           hello_version c = 2 \<and> state c = STATE_BUFFER \<and> buf_len c = 0 \<and>
           buf_to_go c = unat l0 - 3 \<and> buf c = Some (malloc_block (unat l0 - 3))"
    by (auto simp: start_packet_def rd_def protocol_defs Let_def)
next
  assume s: "state cfg = STATE_START" and b: "unat b0 = 128 \<and> unat msg_type \<noteq> 1"
  then show sp: "start_packet malloc_ok cfg (b0 # l0 # msg_type # v0 # v1 # tail) = Inr (Returned (- 1) cfg)"
    by (simp add: start_packet_def rd_def protocol_defs)
  with s have "decode_bucket malloc_ok cfg (b0 # l0 # msg_type # v0 # v1 # tail) = Inr (- 1, cfg)"
    by (intro decode_bucket_start_Returned) simp_all
  with s show "sslhaf_in_filter malloc_ok cfg (Brigade [Data (b0 # l0 # msg_type # v0 # v1 # tail)]) =
      Inr (cfg\<lparr>state := STATE_GOAWAY\<rparr>)"
    by (simp add: sslhaf_in_filter_def)
next
  assume s: "state cfg = STATE_START"
    and b: "start_packet malloc_ok cfg inputbuf = Inr (Buffering c unread)"
  then show "\<exists>x0 x1 x2 x3 x4. inputbuf = x0 # x1 # x2 # x3 # x4 # unread \<and>
         (unat x0 = 22 \<and> 0 < unat x3 * 256 + unat x4 \<and> unat x3 * 256 + unat x4 \<le> 16384 \<and>
            malloc_ok (unat x3 * 256 + unat x4) \<and> hello_version c = 3 \<and>
            buf_to_go c = unat x3 * 256 + unat x4 \<or>
          unat x0 = 128 \<and> unat x2 = 1 \<and> 3 < unat x1 \<and> malloc_ok (unat x1 - 3) \<and>
            hello_version c = 2 \<and> buf_to_go c = unat x1 - 3)"
    by (rule start_packet_accepts)
next
  assume s: "state cfg = STATE_START"
    and b: "inputbuf \<noteq> [] \<and> start_packet malloc_ok cfg inputbuf = Inr (Returned rc c')"
  then have r: "start_packet malloc_ok cfg inputbuf = Inr (Returned rc c')" and ne: "inputbuf \<noteq> []"
    by simp_all
  from start_packet_Returned [OF r]
  show rc: "rc = - 1" and "buf_len c' = buf_len cfg" and "buf_to_go c' = buf_to_go cfg"
    and "buf c' = buf cfg \<or> buf c' = None"
    by simp_all
  from s ne r have "decode_bucket malloc_ok cfg inputbuf = Inr (rc, c')"
    by (intro decode_bucket_start_Returned) simp_all
  with s rc ne show "sslhaf_in_filter malloc_ok cfg (Brigade [Data inputbuf]) = Inr (c'\<lparr>state := STATE_GOAWAY\<rparr>)"
    by (simp add: sslhaf_in_filter_def)
qed

theorem start_state_first_byte_witness:
  "state sslhaf_pre_conn = STATE_START \<and> unat (0x47 :: byte) \<noteq> 22 \<and> unat (0x47 :: byte) \<noteq> 128 \<and>
   sslhaf_in_filter (\<lambda>n. True) sslhaf_pre_conn (Brigade [Data (0x47 # [0x45, 0x54, 0x20, 0x2f])]) =
     Inr (sslhaf_pre_conn\<lparr>state := STATE_GOAWAY\<rparr>) \<and>
   unat (22 :: byte) = 22 \<and> (5 :: nat) = unat (0 :: byte) * 256 + unat (5 :: byte) \<and>
   start_packet (\<lambda>n. True) sslhaf_pre_conn (22 # 3 # 1 # 0 # 5 # [1, 0]) =
     Inr (Buffering
           ((v3_header_cfg sslhaf_pre_conn 3 1)\<lparr>buf := Some (malloc_block 5),
              state := STATE_BUFFER, buf_len := 0, buf_to_go := 5\<rparr>) [1, 0]) \<and>
   unat (128 :: byte) = 128 \<and> unat (1 :: byte) = 1 \<and> 3 < unat (37 :: byte) \<and>
   (\<exists>c. start_packet (\<lambda>n. True) sslhaf_pre_conn (128 # 37 # 1 # 3 # 1 # [0, 12]) =
          Inr (Buffering c [0, 12]) \<and> hello_version c = 2 \<and> state c = STATE_BUFFER \<and>
        buf_len c = 0 \<and> buf_to_go c = unat (37 :: byte) - 3) \<and>
   unat (2 :: byte) \<noteq> 1 \<and>
   start_packet (\<lambda>n. True) sslhaf_pre_conn (128 # 37 # 2 # 3 # 1 # [0, 12]) =
     Inr (Returned (- 1) sslhaf_pre_conn) \<and>
   sslhaf_in_filter (\<lambda>n. True) sslhaf_pre_conn (Brigade [Data (128 # 37 # 2 # 3 # 1 # [0, 12])]) =
     Inr (sslhaf_pre_conn\<lparr>state := STATE_GOAWAY\<rparr>) \<and>
   (\<exists>x0 x1 x2 x3 x4. 22 # 3 # 1 # 0 # 5 # [1, 0 :: byte] = x0 # x1 # x2 # x3 # x4 # [1, 0] \<and>
      unat x0 = 22 \<and> 0 < unat x3 * 256 + unat x4 \<and> unat x3 * 256 + unat x4 \<le> 16384) \<and>
   [22, 3, 1] \<noteq> ([] :: byte list) \<and>
   start_packet (\<lambda>n. True) sslhaf_pre_conn [22, 3, 1] =
     Inr (Returned (- 1) (sslhaf_pre_conn\<lparr>buf_protocol := 22\<rparr>)) \<and>
   sslhaf_in_filter (\<lambda>n. True) sslhaf_pre_conn (Brigade [Data [22, 3, 1]]) =
     Inr (sslhaf_pre_conn\<lparr>buf_protocol := 22, state := STATE_GOAWAY\<rparr>)"
proof -
  have s: "state sslhaf_pre_conn = STATE_START"
    by (simp add: sslhaf_pre_conn_def)
  have g: "unat (0x47 :: byte) \<noteq> 22 \<and> unat (0x47 :: byte) \<noteq> 128"
    by simp
  have h: "unat (22 :: byte) = 22 \<and> (5 :: nat) = unat (0 :: byte) * 256 + unat (5 :: byte) \<and>
           (0 :: nat) < 5 \<and> (5 :: nat) \<le> 16384 \<and> True"
    by simp
  have v: "unat (128 :: byte) = 128 \<and> unat (1 :: byte) = 1 \<and> 3 < unat (37 :: byte) \<and> True"
    by simp
  have w: "unat (128 :: byte) = 128 \<and> unat (2 :: byte) \<noteq> 1"
    by simp
  have ne: "[22, 3, 1] \<noteq> ([] :: byte list)"
    by simp
  have r: "start_packet (\<lambda>n. True) sslhaf_pre_conn [22, 3, 1] =
     Inr (Returned (- 1) (sslhaf_pre_conn\<lparr>buf_protocol := 22\<rparr>))"
    using s by (simp add: start_packet_def rd_def protocol_defs Let_def)
  from start_state_first_byte [where cfg = sslhaf_pre_conn and malloc_ok = "\<lambda>n. True" and ?b0.0 = "0x47"
      and rest = "[0x45, 0x54, 0x20, 0x2f]"] s g
  have a: "sslhaf_in_filter (\<lambda>n. True) sslhaf_pre_conn (Brigade [Data (0x47 # [0x45, 0x54, 0x20, 0x2f])]) =
     Inr (sslhaf_pre_conn\<lparr>state := STATE_GOAWAY\<rparr>)"
    by blast
  from start_state_first_byte [where cfg = sslhaf_pre_conn and malloc_ok = "\<lambda>n. True" and ?b0.0 = 22
      and len = 5 and ?l0.0 = 0 and ?l1.0 = 5 and ?v0.0 = 3 and ?v1.0 = 1 and tail = "[1, 0]"] s h
  have b: "start_packet (\<lambda>n. True) sslhaf_pre_conn (22 # 3 # 1 # 0 # 5 # [1, 0]) =
     Inr (Buffering
           ((v3_header_cfg sslhaf_pre_conn 3 1)\<lparr>buf := Some (malloc_block 5),
              state := STATE_BUFFER, buf_len := 0, buf_to_go := 5\<rparr>) [1, 0])"
    by blast
  from start_state_first_byte [where cfg = sslhaf_pre_conn and malloc_ok = "\<lambda>n. True" and ?b0.0 = 128
      and msg_type = 1 and ?l0.0 = 37 and ?v0.0 = 3 and ?v1.0 = 1 and tail = "[0, 12]"] s v
  have c: "\<exists>c. start_packet (\<lambda>n. True) sslhaf_pre_conn (128 # 37 # 1 # 3 # 1 # [0, 12]) =
          Inr (Buffering c [0, 12]) \<and> hello_version c = 2 \<and> state c = STATE_BUFFER \<and>
        buf_len c = 0 \<and> buf_to_go c = unat (37 :: byte) - 3"
    by blast
  from start_state_first_byte [where cfg = sslhaf_pre_conn and malloc_ok = "\<lambda>n. True" and ?b0.0 = 128
      and msg_type = 2 and ?l0.0 = 37 and ?v0.0 = 3 and ?v1.0 = 1 and tail = "[0, 12]"] s w
  have d: "start_packet (\<lambda>n. True) sslhaf_pre_conn (128 # 37 # 2 # 3 # 1 # [0, 12]) =
     Inr (Returned (- 1) sslhaf_pre_conn)"
    "sslhaf_in_filter (\<lambda>n. True) sslhaf_pre_conn (Brigade [Data (128 # 37 # 2 # 3 # 1 # [0, 12])]) =
     Inr (sslhaf_pre_conn\<lparr>state := STATE_GOAWAY\<rparr>)"
    by blast+
  from start_state_first_byte [where cfg = sslhaf_pre_conn and malloc_ok = "\<lambda>n. True"
      and inputbuf = "22 # 3 # 1 # 0 # 5 # [1, 0]" and unread = "[1, 0]"
      and c = "(v3_header_cfg sslhaf_pre_conn 3 1)\<lparr>buf := Some (malloc_block 5),
              state := STATE_BUFFER, buf_len := 0, buf_to_go := 5\<rparr>"] s b
  have e: "\<exists>x0 x1 x2 x3 x4. 22 # 3 # 1 # 0 # 5 # [1, 0 :: byte] = x0 # x1 # x2 # x3 # x4 # [1, 0] \<and>
      unat x0 = 22 \<and> 0 < unat x3 * 256 + unat x4 \<and> unat x3 * 256 + unat x4 \<le> 16384"
    by (auto simp: v3_header_cfg_def)
  from start_state_first_byte [where cfg = sslhaf_pre_conn and malloc_ok = "\<lambda>n. True"
      and inputbuf = "[22, 3, 1]" and rc = "- 1" and c' = "sslhaf_pre_conn\<lparr>buf_protocol := 22\<rparr>"] s ne r
  have f: "sslhaf_in_filter (\<lambda>n. True) sslhaf_pre_conn (Brigade [Data [22, 3, 1]]) =
     Inr (sslhaf_pre_conn\<lparr>buf_protocol := 22, state := STATE_GOAWAY\<rparr>)"
    by simp
  from s g h v w ne r a b c d e f show ?thesis
    by blast
qed

section \<open>The state machine\<close>

text \<open>
  Claim C9. Along every sequence of brigades fed to a connection that does not start in
  the unused \<open>STATE_READING\<close> (a fresh connection starts in \<open>STATE_START\<close>), as long as no
  read leaves the record buffer: each call of the filter and each call of
  \<open>decode_bucket\<close> either keeps the state or moves it from \<open>STATE_START\<close> to
  \<open>STATE_BUFFER\<close>, from \<open>STATE_START\<close> to \<open>STATE_GOAWAY\<close> or from \<open>STATE_BUFFER\<close> to
  \<open>STATE_GOAWAY\<close>, and \<open>STATE_READING\<close> is never entered. In \<open>STATE_GOAWAY\<close> the
  configuration is returned as it is whatever the input: the state is never left and no
  byte is looked at. The bytes of a chunk that follow the end of the record are not
  looked at either: the call that completes the record gives the same result without them.
\<close>

theorem state_transitions:
  "(state cfg \<noteq> STATE_READING \<and> feed malloc_ok cfg bbs = Inr c1 \<longrightarrow>
      legal_transition (state cfg) (state c1) \<and> state c1 \<noteq> STATE_READING \<and>
      (\<forall>bb c2. sslhaf_in_filter malloc_ok c1 bb = Inr c2 \<longrightarrow>
         legal_transition (state c1) (state c2) \<and> state c2 \<noteq> STATE_READING) \<and>
      (\<forall>inputbuf rc c2. decode_bucket malloc_ok c1 inputbuf = Inr (rc, c2) \<longrightarrow>
         legal_transition (state c1) (state c2) \<and> state c2 \<noteq> STATE_READING)) \<and>
   (state cfg = STATE_GOAWAY \<longrightarrow>
      decode_bucket malloc_ok cfg inputbuf = Inr (1, cfg) \<and>
      sslhaf_in_filter malloc_ok cfg bb = Inr cfg \<and>
      feed malloc_ok cfg bbs = Inr cfg) \<and>
   (state cfg = STATE_BUFFER \<and> inputbuf \<noteq> [] \<and> buf_to_go cfg \<le> length inputbuf \<longrightarrow>
      decode_bucket malloc_ok cfg (inputbuf @ unread) = decode_bucket malloc_ok cfg inputbuf)"
proof (intro conjI impI allI)
  assume a: "state cfg \<noteq> STATE_READING \<and> feed malloc_ok cfg bbs = Inr c1"
  with feed_transition [of cfg malloc_ok bbs c1]
  show "legal_transition (state cfg) (state c1)" and nr: "state c1 \<noteq> STATE_READING"
    by simp_all
  fix c2
  {
    fix bb
    assume "sslhaf_in_filter malloc_ok c1 bb = Inr c2"
    from sslhaf_in_filter_transition [OF nr this]
    show "legal_transition (state c1) (state c2)" "state c2 \<noteq> STATE_READING"
      by simp_all
  }
  {
    fix inputbuf rc
    assume "decode_bucket malloc_ok c1 inputbuf = Inr (rc, c2)"
    from decode_bucket_transition [OF nr this]
    show "legal_transition (state c1) (state c2)" "state c2 \<noteq> STATE_READING"
      by simp_all
  }
next
  assume "state cfg = STATE_GOAWAY"
  then show "decode_bucket malloc_ok cfg inputbuf = Inr (1, cfg)"
    "sslhaf_in_filter malloc_ok cfg bb = Inr cfg" "feed malloc_ok cfg bbs = Inr cfg"
    by (simp_all add: decode_bucket_GOAWAY feed_GOAWAY sslhaf_in_filter_def)
next
  assume "state cfg = STATE_BUFFER \<and> inputbuf \<noteq> [] \<and> buf_to_go cfg \<le> length inputbuf"
  then show "decode_bucket malloc_ok cfg (inputbuf @ unread) = decode_bucket malloc_ok cfg inputbuf"
    by (simp add: decode_bucket_BUFFER buffer_step_complete_append)
qed

theorem state_transitions_witness:
  "state sslhaf_pre_conn \<noteq> STATE_READING \<and>
   feed (\<lambda>n. True) sslhaf_pre_conn [Brigade [Data [0x80, 12, 1, 3, 1, 0, 3]]] =
     Inr (sslhaf_pre_conn\<lparr>state := STATE_BUFFER, buf := Some [0, 3, 0, 0, 0, 0, 0, 0, 0],
            buf_len := 2, buf_to_go := 7, hello_version := 2, protocol_high := 3,
            protocol_low := 1\<rparr>) \<and>
   legal_transition STATE_START STATE_BUFFER \<and>
   sslhaf_in_filter (\<lambda>n. True)
       (sslhaf_pre_conn\<lparr>state := STATE_BUFFER, buf := Some [0, 3, 0, 0, 0, 0, 0, 0, 0],
            buf_len := 2, buf_to_go := 7, hello_version := 2, protocol_high := 3,
            protocol_low := 1\<rparr>)
       (Brigade [Metadata, Data [0, 0, 0, 0, 1, 0, 0x80, 0x47]]) =
     Inr (sslhaf_pre_conn\<lparr>state := STATE_GOAWAY, buf := None,
            buf_len := 9, buf_to_go := 0, hello_version := 2, protocol_high := 3,
            protocol_low := 1, slen := 1, suites := Some 6, thandshake := Some ''2'',
            tprotocol := Some ''3.1'', tsuites := Some ''010080'',
            client_hello := Some ''800c010301000300000000010080''\<rparr>) \<and>
   legal_transition STATE_BUFFER STATE_GOAWAY \<and>
   feed (\<lambda>n. True)
       (sslhaf_pre_conn\<lparr>state := STATE_GOAWAY, buf := None,
            buf_len := 9, buf_to_go := 0, hello_version := 2, protocol_high := 3,
            protocol_low := 1, slen := 1, suites := Some 6, thandshake := Some ''2'',
            tprotocol := Some ''3.1'', tsuites := Some ''010080'',
            client_hello := Some ''800c010301000300000000010080''\<rparr>)
       [Brigade [Data [0x16, 3, 1]], BrigadeError] =
     Inr (sslhaf_pre_conn\<lparr>state := STATE_GOAWAY, buf := None,
            buf_len := 9, buf_to_go := 0, hello_version := 2, protocol_high := 3,
            protocol_low := 1, slen := 1, suites := Some 6, thandshake := Some ''2'',
            tprotocol := Some ''3.1'', tsuites := Some ''010080'',
            client_hello := Some ''800c010301000300000000010080''\<rparr>) \<and>
   decode_bucket (\<lambda>n. True)
       (sslhaf_pre_conn\<lparr>state := STATE_BUFFER, buf := Some [0, 3, 0, 0, 0, 0, 0, 0, 0],
            buf_len := 2, buf_to_go := 7, hello_version := 2, protocol_high := 3,
            protocol_low := 1\<rparr>)
       ([0, 0, 0, 0, 1, 0, 0x80] @ [0x47]) =
     decode_bucket (\<lambda>n. True)
       (sslhaf_pre_conn\<lparr>state := STATE_BUFFER, buf := Some [0, 3, 0, 0, 0, 0, 0, 0, 0],
            buf_len := 2, buf_to_go := 7, hello_version := 2, protocol_high := 3,
            protocol_low := 1\<rparr>)
       [0, 0, 0, 0, 1, 0, 0x80]"
proof -
  let ?c1 = "sslhaf_pre_conn\<lparr>state := STATE_BUFFER, buf := Some [0, 3, 0, 0, 0, 0, 0, 0, 0],
            buf_len := 2, buf_to_go := 7, hello_version := 2, protocol_high := 3,
            protocol_low := 1\<rparr>"
  let ?c2 = "sslhaf_pre_conn\<lparr>state := STATE_GOAWAY, buf := None,
            buf_len := 9, buf_to_go := 0, hello_version := 2, protocol_high := 3,
            protocol_low := 1, slen := 1, suites := Some 6, thandshake := Some ''2'',
            tprotocol := Some ''3.1'', tsuites := Some ''010080'',
            client_hello := Some ''800c010301000300000000010080''\<rparr>"
  have s: "state sslhaf_pre_conn \<noteq> STATE_READING" "state sslhaf_pre_conn = STATE_START"
    "state ?c1 = STATE_BUFFER" "state ?c2 = STATE_GOAWAY"
    by (simp_all add: sslhaf_pre_conn_def)
  have f1: "feed (\<lambda>n. True) sslhaf_pre_conn [Brigade [Data [0x80, 12, 1, 3, 1, 0, 3]]] = Inr ?c1"
    by (simp add: run_defs)
  have f2: "sslhaf_in_filter (\<lambda>n. True) ?c1 (Brigade [Metadata, Data [0, 0, 0, 0, 1, 0, 0x80, 0x47]]) = Inr ?c2"
    by (simp add: run_defs)
  note t = state_transitions [of sslhaf_pre_conn "\<lambda>n. True"
      "[Brigade [Data [0x80, 12, 1, 3, 1, 0, 3]]]" ?c1]
  from t s(1) f1 have "legal_transition (state sslhaf_pre_conn) (state ?c1)"
    and "\<forall>bb c2. sslhaf_in_filter (\<lambda>n. True) ?c1 bb = Inr c2 \<longrightarrow>
         legal_transition (state ?c1) (state c2) \<and> state c2 \<noteq> STATE_READING"
    by blast+
  with f2 s have l: "legal_transition STATE_START STATE_BUFFER" "legal_transition STATE_BUFFER STATE_GOAWAY"
    by (metis)+
  from state_transitions [of ?c2 "\<lambda>n. True" "[Brigade [Data [0x16, 3, 1]], BrigadeError]"] s(4)
  have f3: "feed (\<lambda>n. True) ?c2 [Brigade [Data [0x16, 3, 1]], BrigadeError] = Inr ?c2"
    by blast
  have h: "state ?c1 = STATE_BUFFER \<and> [0, 0, 0, 0, 1, 0, 0x80] \<noteq> ([] :: byte list) \<and>
           buf_to_go ?c1 \<le> length [0, 0, 0, 0, 1, 0, 0x80 :: byte]"
    by (simp add: sslhaf_pre_conn_def)
  from state_transitions [of ?c1 "\<lambda>n. True" _ _ "[0, 0, 0, 0, 1, 0, 0x80]" _ "[0x47]"] h
  have f4: "decode_bucket (\<lambda>n. True) ?c1 ([0, 0, 0, 0, 1, 0, 0x80] @ [0x47]) =
            decode_bucket (\<lambda>n. True) ?c1 [0, 0, 0, 0, 1, 0, 0x80]"
    by blast
  from s(1) f1 f2 f3 f4 l show ?thesis
    by blast
qed

section \<open>The SSLv2 decoder\<close>

text \<open>
  Claim C6. For every fully buffered SSLv2 body \<open>b\<close> whose declared cipher-spec length
  \<open>L\<close> fits the buffer, \<open>decode_packet_v2\<close> returns 1 with exactly \<open>L div 3\<close> suites
  (a last partial suite is dropped, not an error), and its text is the comma-joined list,
  in the order met, of the tokens of the triplets: six hexadecimal characters if
  \<open>b0 \<noteq> 0\<close>, four if \<open>b0 = 0\<close> and \<open>b1 \<noteq> 0\<close>, two otherwise. The handshake and
  protocol texts are the decimal forms of \<open>hello_version\<close> and of the two version numbers.
  The witness is the Google-bot-like hello: tokens 04, 010080, 05, 0a, handshake 2,
  protocol 3.1, both from the buffered body and from the bytes on the wire.
\<close>

theorem decode_packet_v2_suites:
  assumes "buf cfg = Some b" and "buf_len cfg = length b" and "6 \<le> length b"
    and "L = unat (b ! 0) * 256 + unat (b ! 1)" and "L \<le> length b - 6"
  shows "\<exists>cfg'. decode_packet_v2 cfg = Inr (1, cfg') \<and>
           slen cfg' = L div 3 \<and>
           length (spec_v2_tokens b) = L div 3 \<and>
           tsuites cfg' = Some (comma_join (spec_v2_tokens b)) \<and>
           thandshake cfg' = Some (fmt_d (hello_version cfg)) \<and>
           tprotocol cfg' = Some (fmt_d (protocol_high cfg) @ ''.'' @ fmt_d (protocol_low cfg))"
proof -
  from assms(3) have "b \<noteq> []"
    by auto
  with assms(3) have r16: "rd16 b 0 = Inr L"
    by (simp add: rd16_def assms(4))
  have hex: "\<And>q. hex_loop b 0 (length b) q = Inr (q @ concat (map (\<lambda>x. c2x (unat x)) b))"
    using hex_loop_in_range [of 0 "length b" b] by simp
  have fit: "6 + 3 * (L div 3) \<le> length b"
    using assms(3,5) by simp
  have tr: "triplets (take (3 * (L div 3)) (drop 6 b)) = triplets (take L (drop 6 b))"
    using triplets_take_div [of L "drop 6 b"] assms(5) by simp
  have toks: "map (\<lambda>(b0, b1, b2). v2_token b0 b1 b2) (triplets (take (3 * (L div 3)) (drop 6 b)))
              = spec_v2_tokens b"
    using tr by (simp add: spec_v2_tokens_def assms(4))
  have n: "length (spec_v2_tokens b) = L div 3"
    using assms(5) unfolding spec_v2_tokens_def assms(4) by (simp add: min_def)
  have ne: "\<forall>t \<in> set (spec_v2_tokens b). t \<noteq> []"
    by (auto simp: spec_v2_tokens_def)
  show ?thesis
    using assms(1,2,3,5) n
    by (simp add: decode_packet_v2_def Let_def hex r16
        v2_suites_loop_in_range [OF fit] toks join_onto_comma_join [OF ne])
qed

theorem decode_packet_v2_suites_witness:
  "buf google_buffered = Some (drop 5 google_record) \<and>
   buf_len google_buffered = length (drop 5 google_record) \<and>
   6 \<le> length (drop 5 google_record) \<and>
   (12 :: nat) = unat (drop 5 google_record ! 0) * 256 + unat (drop 5 google_record ! 1) \<and>
   12 \<le> length (drop 5 google_record) - 6 \<and>
   spec_v2_tokens (drop 5 google_record) = [''04'', ''010080'', ''05'', ''0a''] \<and>
   (\<exists>cfg'. decode_packet_v2 google_buffered = Inr (1, cfg') \<and> slen cfg' = 4 \<and>
      tsuites cfg' = Some ''04,010080,05,0a'' \<and> thandshake cfg' = Some ''2'' \<and>
      tprotocol cfg' = Some ''3.1'') \<and>
   (\<exists>c. sslhaf_in_filter (\<lambda>n. True) sslhaf_pre_conn (Brigade [Data google_record]) = Inr c \<and>
      state c = STATE_GOAWAY \<and> tsuites c = Some ''04,010080,05,0a'' \<and>
      thandshake c = Some ''2'' \<and> tprotocol c = Some ''3.1'')"
proof -
  have h: "buf google_buffered = Some (drop 5 google_record)"
    "buf_len google_buffered = length (drop 5 google_record)"
    "6 \<le> length (drop 5 google_record)"
    "(12 :: nat) = unat (drop 5 google_record ! 0) * 256 + unat (drop 5 google_record ! 1)"
    "12 \<le> length (drop 5 google_record) - 6"
    by (simp_all add: google_buffered_def google_record_def)
  have v: "hello_version google_buffered = 2" "protocol_high google_buffered = 3"
    "protocol_low google_buffered = 1"
    by (simp_all add: google_buffered_def)
  have t: "spec_v2_tokens (drop 5 google_record) = [''04'', ''010080'', ''05'', ''0a'']"
    by (simp add: spec_v2_tokens_def google_record_def v2_token_def c2x_def c2x_table_def)
  from decode_packet_v2_suites [OF h]
  have d: "\<exists>cfg'. decode_packet_v2 google_buffered = Inr (1, cfg') \<and> slen cfg' = 4 \<and>
      tsuites cfg' = Some ''04,010080,05,0a'' \<and> thandshake cfg' = Some ''2'' \<and>
      tprotocol cfg' = Some ''3.1''"
    by (simp add: t v fmt_d.simps)
  have w: "\<exists>c. sslhaf_in_filter (\<lambda>n. True) sslhaf_pre_conn (Brigade [Data google_record]) = Inr c \<and>
      state c = STATE_GOAWAY \<and> tsuites c = Some ''04,010080,05,0a'' \<and>
      thandshake c = Some ''2'' \<and> tprotocol c = Some ''3.1''"
    by (simp add: google_filter google_parsed_def)
  from h t d w show ?thesis
    by blast
qed

section \<open>The protocol version\<close>

text \<open>
  Claim C8. The header step of an SSLv3+ handshake record stores the two version bytes of
  the record header only if no version is stored yet (\<open>protocol_high\<close> is 0), and leaves a
  stored version alone otherwise. The handshake decoder overwrites the stored version
  with the two bytes of the client version inside the ClientHello (offsets 4 and 5 of the
  record body) before it makes the protocol text: whenever it publishes a protocol text,
  and whenever it parses a ClientHello with success (return code 1, message type 1), the
  stored version and the text \<open>tprotocol\<close> are those of the inner version. The witness
  is a hello with 3.1 in the record header and 3.3 inside: the text is 3.3.
\<close>

theorem inner_version_published:
  "(start_packet malloc_ok cfg (22 # v0 # v1 # l0 # l1 # tail) = Inr r \<longrightarrow>
      (if protocol_high cfg = 0
       then protocol_high (result_cfg r) = unat v0 \<and> protocol_low (result_cfg r) = unat v1
       else protocol_high (result_cfg r) = protocol_high cfg \<and>
            protocol_low (result_cfg r) = protocol_low cfg)) \<and>
   (buf cfg = Some b \<and> decode_packet_v3_handshake cfg = Inr (rc, cfg') \<and>
    (tprotocol cfg' \<noteq> tprotocol cfg \<or> rc = 1 \<and> rd b 0 = Inr 1) \<longrightarrow>
      5 < length b \<and> protocol_high cfg' = unat (b ! 4) \<and> protocol_low cfg' = unat (b ! 5) \<and>
      tprotocol cfg' = Some (fmt_d (unat (b ! 4)) @ ''.'' @ fmt_d (unat (b ! 5))))"
proof (intro conjI impI)
  assume "start_packet malloc_ok cfg (22 # v0 # v1 # l0 # l1 # tail) = Inr r"
  then show "if protocol_high cfg = 0
       then protocol_high (result_cfg r) = unat v0 \<and> protocol_low (result_cfg r) = unat v1
       else protocol_high (result_cfg r) = protocol_high cfg \<and>
            protocol_low (result_cfg r) = protocol_low cfg"
    by (auto simp: start_packet_def rd_def rd16_def protocol_defs Let_def result_cfg_def
        split: if_splits)
next
  assume a: "buf cfg = Some b \<and> decode_packet_v3_handshake cfg = Inr (rc, cfg') \<and>
    (tprotocol cfg' \<noteq> tprotocol cfg \<or> rc = 1 \<and> rd b 0 = Inr 1)"
  then have "5 < length b \<and> protocol_high cfg' = unat (b ! 4) \<and> protocol_low cfg' = unat (b ! 5) \<and>
      tprotocol cfg' = Some (fmt_d (unat (b ! 4)) @ ''.'' @ fmt_d (unat (b ! 5)))"
    by (intro decode_packet_v3_handshake_version) blast+
  then show "5 < length b" "protocol_high cfg' = unat (b ! 4)" "protocol_low cfg' = unat (b ! 5)"
    "tprotocol cfg' = Some (fmt_d (unat (b ! 4)) @ ''.'' @ fmt_d (unat (b ! 5)))"
    by simp_all
qed

theorem inner_version_published_witness:
  "protocol_high sslhaf_pre_conn = 0 \<and>
   (\<exists>r. start_packet (\<lambda>n. True) sslhaf_pre_conn (22 # 3 # 1 # 0 # 0x3d # drop 5 hello_v3) = Inr r \<and>
        protocol_high (result_cfg r) = 3 \<and> protocol_low (result_cfg r) = 1) \<and>
   protocol_high hello_v3_buffered = 3 \<and>
   (\<exists>r. start_packet (\<lambda>n. True) hello_v3_buffered (22 # 3 # 3 # 0 # 0x3d # drop 5 hello_v3) = Inr r \<and>
        protocol_high (result_cfg r) = 3 \<and> protocol_low (result_cfg r) = 1) \<and>
   buf hello_v3_buffered = Some (drop 5 hello_v3) \<and> rd (drop 5 hello_v3) 0 = Inr 1 \<and>
   (\<exists>cfg'. decode_packet_v3_handshake hello_v3_buffered = Inr (1, cfg') \<and>
        protocol_high cfg' = 3 \<and> protocol_low cfg' = 3 \<and> tprotocol cfg' = Some ''3.3'') \<and>
   (\<exists>c. sslhaf_in_filter (\<lambda>n. True) sslhaf_pre_conn (Brigade [Data hello_v3]) = Inr c \<and>
        protocol_high c = 3 \<and> protocol_low c = 3 \<and> tprotocol c = Some ''3.3'')"
proof -
  have z: "protocol_high sslhaf_pre_conn = 0" "protocol_high hello_v3_buffered = 3"
    "protocol_low hello_v3_buffered = 1"
    by (simp_all add: sslhaf_pre_conn_def hello_v3_buffered_def)
  have "\<exists>r. start_packet (\<lambda>n. True) sslhaf_pre_conn (22 # 3 # 1 # 0 # 0x3d # drop 5 hello_v3) = Inr r"
    by (simp add: start_packet_def rd_def rd16_def protocol_defs BUF_LIMIT_def sslhaf_pre_conn_def Let_def)
  then obtain r1 where r1: "start_packet (\<lambda>n. True) sslhaf_pre_conn (22 # 3 # 1 # 0 # 0x3d # drop 5 hello_v3) = Inr r1"
    by blast
  from inner_version_published [of "\<lambda>n. True" sslhaf_pre_conn 3 1 0 "0x3d" "drop 5 hello_v3" r1] r1 z
  have a: "protocol_high (result_cfg r1) = 3 \<and> protocol_low (result_cfg r1) = 1"
    by simp
  have "\<exists>r. start_packet (\<lambda>n. True) hello_v3_buffered (22 # 3 # 3 # 0 # 0x3d # drop 5 hello_v3) = Inr r"
    by (simp add: start_packet_def rd_def rd16_def protocol_defs BUF_LIMIT_def sslhaf_pre_conn_def
        hello_v3_buffered_def Let_def)
  then obtain r2 where r2: "start_packet (\<lambda>n. True) hello_v3_buffered (22 # 3 # 3 # 0 # 0x3d # drop 5 hello_v3) = Inr r2"
    by blast
  from inner_version_published [of "\<lambda>n. True" hello_v3_buffered 3 3 0 "0x3d" "drop 5 hello_v3" r2] r2 z
  have b: "protocol_high (result_cfg r2) = 3 \<and> protocol_low (result_cfg r2) = 1"
    by simp
  have h: "buf hello_v3_buffered = Some (drop 5 hello_v3)" "rd (drop 5 hello_v3) 0 = Inr 1"
    "unat (drop 5 hello_v3 ! 4) = 3" "unat (drop 5 hello_v3 ! 5) = 3"
    by (simp_all add: hello_v3_buffered_def hello_v3_def rd_def)
  have "\<exists>cfg'. decode_packet_v3_handshake hello_v3_buffered = Inr (1, cfg')"
    by (simp add: hello_v3_decode)
  then obtain cfg' where d: "decode_packet_v3_handshake hello_v3_buffered = Inr (1, cfg')"
    by blast
  from inner_version_published [where cfg = hello_v3_buffered and b = "drop 5 hello_v3" and rc = 1
      and cfg' = cfg'] h(1,2) d
  have "protocol_high cfg' = unat (drop 5 hello_v3 ! 4) \<and> protocol_low cfg' = unat (drop 5 hello_v3 ! 5) \<and>
        tprotocol cfg' = Some (fmt_d (unat (drop 5 hello_v3 ! 4)) @ ''.'' @ fmt_d (unat (drop 5 hello_v3 ! 5)))"
    by blast
  then have c: "protocol_high cfg' = 3 \<and> protocol_low cfg' = 3 \<and> tprotocol cfg' = Some ''3.3''"
    by (simp add: h fmt_d.simps)
  have w: "\<exists>c. sslhaf_in_filter (\<lambda>n. True) sslhaf_pre_conn (Brigade [Data hello_v3]) = Inr c \<and>
        protocol_high c = 3 \<and> protocol_low c = 3 \<and> tprotocol c = Some ''3.3''"
    by (simp add: hello_v3_filter hello_v3_decoded_def)
  from z r1 a r2 b h d c w show ?thesis
    by blast
qed

section \<open>Fragmentation\<close>

text \<open>
  Claim C2, as the code has it. The header of a record is read from one chunk: lines
  765-770 and 826-831 return -1 when fewer than four bytes follow the first byte in the
  chunk at hand. Fed one byte per chunk, the TLS hello ends in \<open>STATE_GOAWAY\<close> at its
  first byte with nothing parsed, while fed as one chunk it is parsed.
\<close>

theorem byte_chunks_counterexample:
  "concat (map (\<lambda>b. [b]) hello_v3) = hello_v3 \<and>
   feed_chunks (\<lambda>n. True) sslhaf_pre_conn (map (\<lambda>b. [b]) hello_v3) =
     Inr (sslhaf_pre_conn\<lparr>buf_protocol := 22, state := STATE_GOAWAY\<rparr>) \<and>
   tsuites (sslhaf_pre_conn\<lparr>buf_protocol := 22, state := STATE_GOAWAY\<rparr>) = None \<and>
   feed_chunks (\<lambda>n. True) sslhaf_pre_conn [hello_v3] =
     Inr (hello_v3_decoded\<lparr>buf := None, state := STATE_GOAWAY\<rparr>) \<and>
   tsuites (hello_v3_decoded\<lparr>buf := None, state := STATE_GOAWAY\<rparr>) = Some ''2f'' \<and>
   feed_chunks (\<lambda>n. True) sslhaf_pre_conn (map (\<lambda>b. [b]) hello_v3) \<noteq>
     feed_chunks (\<lambda>n. True) sslhaf_pre_conn [hello_v3]"
proof -
  have s: "state sslhaf_pre_conn = STATE_START"
    by (simp add: sslhaf_pre_conn_def)
  have c: "concat (map (\<lambda>b. [b]) hello_v3) = hello_v3"
    by (rule concat_singletons)
  have m: "map (\<lambda>b. [b]) hello_v3 = [0x16] # map (\<lambda>b. [b]) (tl hello_v3)"
    by (simp add: hello_v3_def)
  have sp: "start_packet (\<lambda>n. True) sslhaf_pre_conn [0x16] =
            Inr (Returned (- 1) (sslhaf_pre_conn\<lparr>buf_protocol := 22\<rparr>))"
    using s by (simp add: start_packet_def rd_def protocol_defs Let_def)
  have f: "sslhaf_in_filter (\<lambda>n. True) sslhaf_pre_conn (Brigade [Data [0x16]]) =
           Inr (sslhaf_pre_conn\<lparr>buf_protocol := 22, state := STATE_GOAWAY\<rparr>)"
    using s by (simp add: filter_chunk decode_bucket_START sp settle_def)
  have bytes: "feed_chunks (\<lambda>n. True) sslhaf_pre_conn (map (\<lambda>b. [b]) hello_v3) =
               Inr (sslhaf_pre_conn\<lparr>buf_protocol := 22, state := STATE_GOAWAY\<rparr>)"
    unfolding m by (simp add: feed_chunks_Cons f feed_chunks_GOAWAY)
  have whole: "feed_chunks (\<lambda>n. True) sslhaf_pre_conn [hello_v3] =
               Inr (hello_v3_decoded\<lparr>buf := None, state := STATE_GOAWAY\<rparr>)"
    by (simp add: feed_chunks_Cons hello_v3_filter)
  have t1: "tsuites (sslhaf_pre_conn\<lparr>buf_protocol := 22, state := STATE_GOAWAY\<rparr>) = None"
    by (simp add: sslhaf_pre_conn_def)
  have t2: "tsuites (hello_v3_decoded\<lparr>buf := None, state := STATE_GOAWAY\<rparr>) = Some ''2f''"
    by (simp add: hello_v3_decoded_def)
  from t1 t2 have "sslhaf_pre_conn\<lparr>buf_protocol := 22, state := STATE_GOAWAY\<rparr> \<noteq>
                   hello_v3_decoded\<lparr>buf := None, state := STATE_GOAWAY\<rparr>"
    by (metis option.distinct(1))
  with c bytes whole t1 t2 show ?thesis
    by simp
qed

text \<open>
  Claim C2, amended. For every byte sequence and every partition of it into chunks whose
  first non-empty chunk holds at least 5 bytes (the whole header, which the code reads
  from one chunk), feeding the chunks in order to a connection in \<open>STATE_START\<close> gives
  the same result as feeding the whole sequence as one chunk: the same configuration,
  with every parsed field equal, or the same fault.
\<close>

theorem fragmentation_invariance:
  "state cfg = STATE_START \<and>
   (case dropWhile (\<lambda>c. c = []) chunks of [] \<Rightarrow> True | c # cs \<Rightarrow> 5 \<le> length c) \<longrightarrow>
   feed_chunks malloc_ok cfg chunks = feed_chunks malloc_ok cfg [concat chunks]"
proof (induction chunks)
  case Nil
  show ?case
    by (simp add: feed_chunks_Cons filter_chunk_Nil)
next
  case (Cons c chunks)
  show ?case
  proof (cases "c = []")
    case True
    with Cons.IH show ?thesis
      by (simp add: feed_chunks_Cons filter_chunk_Nil)
  next
    case False
    show ?thesis
    proof
      assume "state cfg = STATE_START \<and>
        (case dropWhile (\<lambda>c. c = []) (c # chunks) of [] \<Rightarrow> True | c # cs \<Rightarrow> 5 \<le> length c)"
      with False have s: "state cfg = STATE_START" and l: "5 \<le> length c"
        by simp_all
      from feed_chunks_header [OF s l, of malloc_ok chunks]
      show "feed_chunks malloc_ok cfg (c # chunks) = feed_chunks malloc_ok cfg [concat (c # chunks)]"
        by (simp add: feed_chunks_Cons)
    qed
  qed
qed

theorem fragmentation_invariance_witness:
  "state sslhaf_pre_conn = STATE_START \<and>
   (case dropWhile (\<lambda>c. c = [])
           [[], take 9 hello_v3, [], take 30 (drop 9 hello_v3), drop 39 hello_v3] of
      [] \<Rightarrow> True | c # cs \<Rightarrow> 5 \<le> length c) \<and>
   concat [[], take 9 hello_v3, [], take 30 (drop 9 hello_v3), drop 39 hello_v3] = hello_v3 \<and>
   feed_chunks (\<lambda>n. True) sslhaf_pre_conn
     [[], take 9 hello_v3, [], take 30 (drop 9 hello_v3), drop 39 hello_v3] =
     feed_chunks (\<lambda>n. True) sslhaf_pre_conn [hello_v3] \<and>
   feed_chunks (\<lambda>n. True) sslhaf_pre_conn
     [[], take 9 hello_v3, [], take 30 (drop 9 hello_v3), drop 39 hello_v3] =
     Inr (hello_v3_decoded\<lparr>buf := None, state := STATE_GOAWAY\<rparr>)"
proof -
  let ?chunks = "[[], take 9 hello_v3, [], take 30 (drop 9 hello_v3), drop 39 hello_v3]"
  have s: "state sslhaf_pre_conn = STATE_START"
    by (simp add: sslhaf_pre_conn_def)
  have h: "case dropWhile (\<lambda>c. c = []) ?chunks of [] \<Rightarrow> True | c # cs \<Rightarrow> 5 \<le> length c"
    by (simp add: hello_v3_def)
  have c: "concat ?chunks = hello_v3"
    by (simp add: hello_v3_def)
  from fragmentation_invariance [of sslhaf_pre_conn ?chunks "\<lambda>n. True"] s h
  have "feed_chunks (\<lambda>n. True) sslhaf_pre_conn ?chunks =
        feed_chunks (\<lambda>n. True) sslhaf_pre_conn [concat ?chunks]"
    by blast
  then have e: "feed_chunks (\<lambda>n. True) sslhaf_pre_conn ?chunks =
                feed_chunks (\<lambda>n. True) sslhaf_pre_conn [hello_v3]"
    by (simp only: c)
  have "feed_chunks (\<lambda>n. True) sslhaf_pre_conn [hello_v3] =
        Inr (hello_v3_decoded\<lparr>buf := None, state := STATE_GOAWAY\<rparr>)"
    by (simp add: feed_chunks_Cons hello_v3_filter)
  with s h c e show ?thesis
    by simp
qed

section \<open>Lengths inside the extensions\<close>

text \<open>
  Claim C1 does not hold of the code: the lengths up to the extensions block are compared
  with what is left (return codes -3 to -11), the lengths inside the extension loop of
  lines 617-695 are not. On the record \<open>groups_overrun\<close>, whose supported-groups list
  declares 8 bytes where 2 are left, the decoder reads past the end of the record buffer;
  on \<open>extension_overrun\<close>, whose one extension declares 256 bytes where 2 are left,
  it returns 1 with the extension recorded, where the claim asks for a failure.
  (Lemma \<open>decode_packet_v3_handshake_fault\<close> above: no other part of the decoder
  reads outside a fully buffered record.)
\<close>

theorem unchecked_extension_lengths:
  "decode_bucket (\<lambda>n. True) sslhaf_pre_conn groups_overrun = Inl OutOfBoundsRead \<and>
   (\<exists>c. decode_bucket (\<lambda>n. True) sslhaf_pre_conn extension_overrun = Inr (1, c) \<and>
        extensions_len c = 1 \<and> extensions c = Some ''0023'')"
  by (simp add: run_defs groups_overrun_def extension_overrun_def)

section \<open>The normalizer\<close>

text \<open>
  Claim C4 does not hold of the code for the lists the decoders produce: the scratch
  copy is a \<open>char[100]\<close> and the output a block of 100 bytes, both filled unchecked. The
  text of the 25 suites has 102 characters, so \<open>strcpy\<close> writes past the array; the
  text of the 17 suites has 84, and its decimal form of 102 characters plus the \<open>NUL\<close>
  runs past the output block; a list of GREASE tokens only leaves the output empty, and
  the last character cut off is then the byte before the block. On a short list the
  result is what the claim says (last conjunct, and lemma
  \<open>normalize_list_within_bounds\<close> above for every list that fits).
\<close>

theorem normalizer_buffer_overrun:
  "v3_suites_loop suites25 0 25 [] = Inr suites25_text \<and> length suites25_text = 102 \<and>
   normalize_list (Some suites25_text) = Inl OutOfBoundsWrite \<and>
   length suites17_text = 84 \<and>
   normalize_list (Some suites17_text) = Inl OutOfBoundsWrite \<and>
   normalize_list (Some ''0a0a,1a1a'') = Inl OutOfBoundsWrite \<and>
   normalize_list (Some ''c02b,0a0a,2f'') = Inr ''49195-47''"
  by (simp add: suites25_def suites25_text_def suites17_text_def v3_suites_loop.simps rd_def
      c2x_def c2x_table_def normalize_defs)

text \<open>
  Claim C5 does not hold of the code: a list that is absent is a \<open>NULL\<close> pointer, which
  \<open>strcpy\<close> dereferences. The TLS hello without a supported-groups extension leaves
  \<open>curves\<close> unset and the SSLv2 hello leaves \<open>extensions\<close> unset; on both the function
  faults. A list that is present and empty makes the normalizer write before the output
  block, and for the EC point formats gives the text 0, not an empty value.
\<close>

theorem absent_list_faults:
  "sslhaf_in_filter (\<lambda>n. True) sslhaf_pre_conn (Brigade [Data hello_no_groups]) =
     Inr hello_no_groups_parsed \<and>
   curves hello_no_groups_parsed = None \<and>
   sslhaf_post_request hello_no_groups_parsed Map.empty = Inl NullDereference \<and>
   sslhaf_in_filter (\<lambda>n. True) sslhaf_pre_conn (Brigade [Data google_record]) = Inr google_parsed \<and>
   extensions google_parsed = None \<and>
   sslhaf_post_request google_parsed Map.empty = Inl NullDereference \<and>
   normalize_list None = Inl NullDereference \<and>
   normalize_ec_point None = Inl NullDereference \<and>
   normalize_list (Some []) = Inl OutOfBoundsWrite \<and>
   normalize_ec_point (Some []) = Inr ''0''"
proof -
  have a: "sslhaf_in_filter (\<lambda>n. True) sslhaf_pre_conn (Brigade [Data hello_no_groups]) =
     Inr hello_no_groups_parsed"
    by (simp add: run_defs hello_no_groups_def hello_no_groups_parsed_def)
  have b: "sslhaf_post_request hello_no_groups_parsed Map.empty = Inl NullDereference"
    by (simp add: sslhaf_post_request_def hello_no_groups_parsed_def sslhaf_pre_conn_def
        normalize_defs Let_def)
  have c: "sslhaf_post_request google_parsed Map.empty = Inl NullDereference"
    by (simp add: sslhaf_post_request_def google_parsed_def sslhaf_pre_conn_def
        normalize_defs Let_def)
  have d: "normalize_list None = Inl NullDereference" "normalize_ec_point None = Inl NullDereference"
    "normalize_list (Some []) = Inl OutOfBoundsWrite" "normalize_ec_point (Some []) = Inr ''0''"
    by (simp_all add: normalize_defs)
  have e: "curves hello_no_groups_parsed = None" "extensions google_parsed = None"
    by (simp_all add: hello_no_groups_parsed_def google_parsed_def sslhaf_pre_conn_def)
  from a b c d e google_filter show ?thesis
    by simp
qed

end
